theory Spec2Isabelle
  imports Main "HOL-Library.AList" "HOL-Library.Char_ord" "HOL-Library.List_Lexorder"
begin

section \<open>The updater's state and its environment\<close>

text \<open>
  The embedding follows \<^verbatim>\<open>packages/scripts/update.py\<close>, class \<^verbatim>\<open>DockerUpdater\<close>.
  Strings and file contents are byte strings. The output directory is an association
  list from entry names to entries, in the order a directory scan yields them; an entry
  is a regular file with its content, or a subdirectory. The log file of the running
  update (\<^verbatim>\<open>update_log_<timestamp>.txt\<close>) and the lines written to it are not part of
  the modelled state.
\<close>

type_synonym bytes = string

datatype entry = File bytes | Directory

type_synonym directory = "(string \<times> entry) list"

record stats =
  success :: nat
  failed :: nat
  skipped :: nat
  total_size :: nat

text \<open>
  The network is an oracle: the answer to the \<open>n\<close>-th request the program makes.
  \<open>HTTPError code\<close> is \<^verbatim>\<open>urllib.error.HTTPError\<close>, which \<^verbatim>\<open>urlopen\<close> raises from the
  status line, before any body is read. \<open>OtherError None\<close> is any other exception raised
  before the destination file is opened, \<open>OtherError (Some p)\<close> any other exception
  raised after it was opened and the bytes \<open>p\<close> were written. \<open>Body b\<close> is a complete
  response.
\<close>

datatype request = HEAD string | GET string

datatype response = HTTPError nat | OtherError "bytes option" | Body bytes

datatype event =
    Call string string
  | Net request
  | Sleep nat
  | Open_wb string
  | Unlink string
  | Hash string bytes
  | Chmod string

record asset =
  asset_name :: string
  browser_download_url :: "string option"

text \<open>
  What the program takes from outside: the network, \<^verbatim>\<open>hashlib\<close>'s SHA-256 hex digest,
  the order in which a Python \<^verbatim>\<open>set\<close> of strings is iterated, and \<^verbatim>\<open>json.loads\<close>
  followed by the lookup of the \<^verbatim>\<open>assets\<close> list (\<open>None\<close> when that raises).
\<close>

record world =
  network :: "nat \<Rightarrow> request \<Rightarrow> response"
  sha256 :: "bytes \<Rightarrow> string"
  set_order :: "string list \<Rightarrow> string list"
  json_assets :: "bytes \<Rightarrow> asset list option"

record updater =
  output_dir :: directory
  download_stats :: stats
  net_calls :: nat
  trace :: "event list"

definition emit :: "event \<Rightarrow> updater \<Rightarrow> updater" where
  "emit e s = s\<lparr>trace := trace s @ [e]\<rparr>"

definition urlopen :: "world \<Rightarrow> request \<Rightarrow> updater \<Rightarrow> response \<times> updater" where
  "urlopen w req s =
     (network w (net_calls s) req, emit (Net req) (s\<lparr>net_calls := Suc (net_calls s)\<rparr>))"

subsection \<open>Files of the output directory\<close>

definition exists_path :: "directory \<Rightarrow> string \<Rightarrow> bool" where
  "exists_path d name = (map_of d name \<noteq> None)"

definition read_file :: "directory \<Rightarrow> string \<Rightarrow> bytes option" where
  "read_file d name = (case map_of d name of Some (File b) \<Rightarrow> Some b | _ \<Rightarrow> None)"

definition is_file :: "directory \<Rightarrow> string \<Rightarrow> bool" where
  "is_file d name = (read_file d name \<noteq> None)"

text \<open>
  \<^verbatim>\<open>open(path, 'wb')\<close> followed by the writes: the entry holds the bytes written.
\<close>

definition write_file :: "string \<Rightarrow> bytes \<Rightarrow> directory \<Rightarrow> directory" where
  "write_file name b d = AList.update name (File b) d"

definition incr_success :: "nat \<Rightarrow> updater \<Rightarrow> updater" where
  "incr_success file_size s =
     s\<lparr>download_stats := (download_stats s)
          \<lparr>success := success (download_stats s) + 1,
           total_size := total_size (download_stats s) + file_size\<rparr>\<rparr>"

definition incr_failed :: "updater \<Rightarrow> updater" where
  "incr_failed s =
     s\<lparr>download_stats := (download_stats s)\<lparr>failed := failed (download_stats s) + 1\<rparr>\<rparr>"

definition incr_skipped :: "updater \<Rightarrow> updater" where
  "incr_skipped s =
     s\<lparr>download_stats := (download_stats s)\<lparr>skipped := skipped (download_stats s) + 1\<rparr>\<rparr>"

section \<open>download_file\<close>

text \<open>
  The handler of \<^verbatim>\<open>except Exception\<close>: the destination is deleted when it exists.
\<close>

definition unlink_partial :: "string \<Rightarrow> updater \<Rightarrow> updater" where
  "unlink_partial filename s =
     (if exists_path (output_dir s) filename
      then emit (Unlink filename) (s\<lparr>output_dir := AList.delete filename (output_dir s)\<rparr>)
      else s)"

text \<open>
  The code after the two handlers: \<^verbatim>\<open>if attempt < max_retries - 1: sleep(2 ** attempt)\<close>.
\<close>

definition backoff :: "nat \<Rightarrow> nat \<Rightarrow> updater \<Rightarrow> updater" where
  "backoff max_retries attempt s =
     (if int attempt < int max_retries - 1 then emit (Sleep (2 ^ attempt)) s else s)"

definition open_wb :: "string \<Rightarrow> bytes \<Rightarrow> updater \<Rightarrow> updater" where
  "open_wb filename b s =
     emit (Open_wb filename) (s\<lparr>output_dir := write_file filename b (output_dir s)\<rparr>)"

text \<open>
  The body of \<^verbatim>\<open>for attempt in range(max_retries)\<close>, over the attempts still to make,
  and the two statements after the loop.
\<close>

fun download_attempts ::
  "world \<Rightarrow> string \<Rightarrow> string \<Rightarrow> nat \<Rightarrow> nat list \<Rightarrow> updater \<Rightarrow> bool \<times> updater" where
  "download_attempts w url filename max_retries [] s = (False, incr_failed s)"
| "download_attempts w url filename max_retries (attempt # rest) s =
     (case urlopen w (GET url) s of
        (HTTPError code, s1) \<Rightarrow>
          if code = 404 then (False, incr_failed s1)
          else download_attempts w url filename max_retries rest (backoff max_retries attempt s1)
      | (OtherError partial, s1) \<Rightarrow>
          let s2 = (case partial of None \<Rightarrow> s1 | Some p \<Rightarrow> open_wb filename p s1)
          in download_attempts w url filename max_retries rest
               (backoff max_retries attempt (unlink_partial filename s2))
      | (Body body, s1) \<Rightarrow>
          let s2 = open_wb filename body s1
          in (case read_file (output_dir s2) filename of
                Some content \<Rightarrow>
                  (True, incr_success (length content) (emit (Hash filename content) s2))
              | None \<Rightarrow>
                  download_attempts w url filename max_retries rest
                    (backoff max_retries attempt (unlink_partial filename s2))))"

definition download_file ::
  "world \<Rightarrow> string \<Rightarrow> string \<Rightarrow> nat \<Rightarrow> updater \<Rightarrow> bool \<times> updater" where
  "download_file w url filename max_retries s =
     (let s0 = emit (Call url filename) s
      in if exists_path (output_dir s0) filename then (True, incr_skipped s0)
         else download_attempts w url filename max_retries [0..<max_retries] s0)"


section \<open>String operations and the regular expressions of the source\<close>

text \<open>\<^verbatim>\<open>s.startswith(p)\<close>, returning what follows the prefix.\<close>

fun strip_prefix :: "string \<Rightarrow> string \<Rightarrow> string option" where
  "strip_prefix [] s = Some s"
| "strip_prefix (p # ps) [] = None"
| "strip_prefix (p # ps) (c # cs) = (if p = c then strip_prefix ps cs else None)"

definition starts_with :: "string \<Rightarrow> string \<Rightarrow> bool" where
  "starts_with p s = (strip_prefix p s \<noteq> None)"

text \<open>\<^verbatim>\<open>sub in s\<close> on strings.\<close>

fun contains :: "string \<Rightarrow> string \<Rightarrow> bool" where
  "contains sub [] = (sub = [])"
| "contains sub (c # cs) = (starts_with sub (c # cs) \<or> contains sub cs)"

definition is_digit :: "char \<Rightarrow> bool" where
  "is_digit c = (CHR ''0'' \<le> c \<and> c \<le> CHR ''9'')"

text \<open>
  \<^verbatim>\<open>\d+\<close>, greedy. In every pattern of the source it is followed by a character that
  is not a digit, so giving back digits never yields another match and the longest run
  is the only candidate.
\<close>

definition digits1 :: "string \<Rightarrow> (string \<times> string) option" where
  "digits1 s =
     (let d = takeWhile is_digit s
      in if d = [] then None else Some (d, dropWhile is_digit s))"

text \<open>\<^verbatim>\<open>\d+\.\d+\.\d+\<close>: the text matched and what follows it.\<close>

definition semver :: "string \<Rightarrow> (string \<times> string) option" where
  "semver s =
     (case digits1 s of None \<Rightarrow> None | Some (major, r1) \<Rightarrow>
     (case strip_prefix ''.'' r1 of None \<Rightarrow> None | Some r2 \<Rightarrow>
     (case digits1 r2 of None \<Rightarrow> None | Some (minor, r3) \<Rightarrow>
     (case strip_prefix ''.'' r3 of None \<Rightarrow> None | Some r4 \<Rightarrow>
     (case digits1 r4 of None \<Rightarrow> None | Some (patch, r5) \<Rightarrow>
        Some (major @ ''.'' @ minor @ ''.'' @ patch, r5))))))"

text \<open>
  \<^verbatim>\<open>prefix(\d+\.\d+\.\d+)\.tgz\<close> tried at the start of \<open>s\<close>: group 1 and what follows
  the match. The two listing patterns are
  \<^verbatim>\<open>docker-(\d+\.\d+\.\d+)\.tgz\<close> and \<^verbatim>\<open>docker-rootless-extras-(\d+\.\d+\.\d+)\.tgz\<close>.
\<close>

definition re_versioned_tgz :: "string \<Rightarrow> string \<Rightarrow> (string \<times> string) option" where
  "re_versioned_tgz pre s =
     (case strip_prefix pre s of None \<Rightarrow> None | Some r \<Rightarrow>
     (case semver r of None \<Rightarrow> None | Some (v, r1) \<Rightarrow>
     (case strip_prefix ''.tgz'' r1 of None \<Rightarrow> None | Some r2 \<Rightarrow> Some (v, r2))))"

text \<open>
  \<^verbatim>\<open>re.findall\<close> for a pattern with one group: the matches from left to right, not
  overlapping; the scan resumes where a match ended, one character further after a
  failure or an empty match.
\<close>

function findall :: "(string \<Rightarrow> (string \<times> string) option) \<Rightarrow> string \<Rightarrow> string list" where
  "findall re s =
     (case re s of
        Some (g, r) \<Rightarrow>
          if length r < length s then g # findall re r
          else if s = [] then [g] else g # findall re (tl s)
      | None \<Rightarrow> if s = [] then [] else findall re (tl s))"
  by pat_completeness auto
termination
  by (relation "measure (\<lambda>(re, s). length s)") auto

declare findall.simps [simp del]

text \<open>\<^verbatim>\<open>.+\<close> followed by a literal: one or more characters other than a newline.\<close>

fun any1_then :: "string \<Rightarrow> string \<Rightarrow> bool" where
  "any1_then lit [] = False"
| "any1_then lit (c # cs) = (c \<noteq> CHR 0x0A \<and> (starts_with lit cs \<or> any1_then lit cs))"

text \<open>
  \<^verbatim>\<open>re.match\<close> of \<^verbatim>\<open>prefix(\d+\.\d+\.\d+)-.+\.tgz\<close>, for the prefixes
  \<^verbatim>\<open>docker-\<close> and \<^verbatim>\<open>docker-rootless-extras-\<close>, and of
  \<^verbatim>\<open>docker-compose-linux-(\d+\.\d+\.\d+)-.+\<close>: group 1 of the match at the start of
  the name.
\<close>

definition match_tgz :: "string \<Rightarrow> string \<Rightarrow> string option" where
  "match_tgz pre name =
     (case strip_prefix pre name of None \<Rightarrow> None | Some r \<Rightarrow>
     (case semver r of None \<Rightarrow> None | Some (v, r1) \<Rightarrow>
     (case strip_prefix ''-'' r1 of None \<Rightarrow> None | Some r2 \<Rightarrow>
        if any1_then ''.tgz'' r2 then Some v else None)))"

definition match_compose :: "string \<Rightarrow> string option" where
  "match_compose name =
     (case strip_prefix ''docker-compose-linux-'' name of None \<Rightarrow> None | Some r \<Rightarrow>
     (case semver r of None \<Rightarrow> None | Some (v, r1) \<Rightarrow>
     (case strip_prefix ''-'' r1 of None \<Rightarrow> None | Some r2 \<Rightarrow>
        if any1_then [] r2 then Some v else None)))"

section \<open>Version resolution\<close>

definition docker_url :: "string \<Rightarrow> string \<Rightarrow> string" where
  "docker_url arch version =
     ''https://download.docker.com/linux/static/stable/'' @ arch @ ''/docker-'' @ version @ ''.tgz''"

definition rootless_url :: "string \<Rightarrow> string \<Rightarrow> string" where
  "rootless_url arch version =
     ''https://download.docker.com/linux/static/stable/'' @ arch
       @ ''/docker-rootless-extras-'' @ version @ ''.tgz''"

definition index_url :: "string \<Rightarrow> string" where
  "index_url arch = ''https://download.docker.com/linux/static/stable/'' @ arch @ ''/''"

definition check_url_exists :: "world \<Rightarrow> string \<Rightarrow> updater \<Rightarrow> bool \<times> updater" where
  "check_url_exists w url s =
     (case urlopen w (HEAD url) s of (Body b, s1) \<Rightarrow> (True, s1) | (r, s1) \<Rightarrow> (False, s1))"

text \<open>\<^verbatim>\<open>int\<close> on a string of decimal digits, and \<^verbatim>\<open>v.split('.')\<close>.\<close>

definition py_int :: "string \<Rightarrow> nat" where
  "py_int ds = foldl (\<lambda>n c. 10 * n + (of_char c - 48)) 0 ds"

fun split_on :: "char \<Rightarrow> string \<Rightarrow> string list" where
  "split_on sep [] = [[]]"
| "split_on sep (c # cs) =
     (if c = sep then [] # split_on sep cs
      else (case split_on sep cs of [] \<Rightarrow> [[c]] | x # xs \<Rightarrow> (c # x) # xs))"

text \<open>
  \<^verbatim>\<open>tuple(map(int, v.split('.')))\<close>. Tuples of integers compare as lists of numbers do,
  component by component.
\<close>

definition version_key :: "string \<Rightarrow> nat list" where
  "version_key v = map py_int (split_on CHR ''.'' v)"

text \<open>
  \<^verbatim>\<open>sorted(set(versions), key=..., reverse=True)\<close>: a stable sort of the reversed
  sequence, reversed again.
\<close>

definition sorted_versions :: "world \<Rightarrow> string list \<Rightarrow> string list" where
  "sorted_versions w versions = rev (sort_key version_key (rev (set_order w versions)))"

definition list_versions :: "world \<Rightarrow> string \<Rightarrow> string \<Rightarrow> updater \<Rightarrow> string list \<times> updater" where
  "list_versions w pre arch s =
     (case urlopen w (GET (index_url arch)) s of
        (Body html, s1) \<Rightarrow> (sorted_versions w (findall (re_versioned_tgz pre) html), s1)
      | (r, s1) \<Rightarrow> ([], s1))"

definition list_static_versions :: "world \<Rightarrow> string \<Rightarrow> updater \<Rightarrow> string list \<times> updater" where
  "list_static_versions w arch s = list_versions w ''docker-'' arch s"

definition list_rootless_versions :: "world \<Rightarrow> string \<Rightarrow> updater \<Rightarrow> string list \<times> updater" where
  "list_rootless_versions w arch s = list_versions w ''docker-rootless-extras-'' arch s"

definition resolve_static_version_for_arch ::
  "world \<Rightarrow> string \<Rightarrow> string \<Rightarrow> updater \<Rightarrow> string \<times> updater" where
  "resolve_static_version_for_arch w arch desired_version s =
     (case check_url_exists w (docker_url arch desired_version) s of
        (True, s1) \<Rightarrow> (desired_version, s1)
      | (False, s1) \<Rightarrow>
          (case list_static_versions w arch s1 of
             (avail, s2) \<Rightarrow>
               (case avail of fallback # others \<Rightarrow> (fallback, s2) | [] \<Rightarrow> (desired_version, s2))))"


section \<open>The compose asset of a release\<close>

definition compose_api :: "string \<Rightarrow> string" where
  "compose_api version =
     ''https://api.github.com/repos/docker/compose/releases/tags/'' @ ''v'' @ version"

definition alt :: "string \<Rightarrow> string list" where
  "alt arch =
     (if arch = ''x86_64'' then [''amd64'']
      else if arch = ''aarch64'' then [''arm64''] else [])"

definition asset_names :: "string \<Rightarrow> string list" where
  "asset_names arch =
     [''docker-compose-linux-'' @ arch, ''docker-compose-linux-'' @ arch @ ''.exe'']
       @ concat (map (\<lambda>a. [''docker-compose-linux-'' @ a, ''docker-compose-linux-'' @ a @ ''.exe''])
                   (alt arch))"

text \<open>
  The loop \<^verbatim>\<open>for asset in assets\<close>: \<open>asset_name\<close> is \<^verbatim>\<open>asset.get('name', '')\<close> and
  \<open>browser_download_url\<close> is \<^verbatim>\<open>asset.get('browser_download_url')\<close>.
\<close>

fun select_asset :: "string \<Rightarrow> asset list \<Rightarrow> string option" where
  "select_asset arch [] = None"
| "select_asset arch (a # rest) =
     (if list_ex (\<lambda>n. asset_name a = n) (asset_names arch) then browser_download_url a
      else if starts_with ''docker-compose-linux-'' (asset_name a)
              \<and> (contains arch (asset_name a) \<or> list_ex (\<lambda>t. contains t (asset_name a)) (alt arch))
      then browser_download_url a
      else select_asset arch rest)"

definition get_compose_asset_url ::
  "world \<Rightarrow> string \<Rightarrow> string \<Rightarrow> updater \<Rightarrow> string option \<times> updater" where
  "get_compose_asset_url w version arch s =
     (case urlopen w (GET (compose_api version)) s of
        (Body b, s1) \<Rightarrow>
          (case json_assets w b of
             Some assets \<Rightarrow> (select_asset arch assets, s1)
           | None \<Rightarrow> (None, s1))
      | (r, s1) \<Rightarrow> (None, s1))"

section \<open>Removing old versions\<close>

text \<open>
  \<^verbatim>\<open>output_dir.glob(pattern)\<close> for a pattern \<^verbatim>\<open>prefix*suffix\<close> with one star and no other
  metacharacter, as the three patterns of the source are for the architecture tokens of
  \<^verbatim>\<open>arch_mapping\<close>.
\<close>

definition glob_star :: "string \<Rightarrow> string \<Rightarrow> string \<Rightarrow> bool" where
  "glob_star pre suf name =
     (length pre + length suf \<le> length name
      \<and> take (length pre) name = pre
      \<and> drop (length name - length suf) name = suf)"

definition glob :: "directory \<Rightarrow> string \<Rightarrow> string \<Rightarrow> string list" where
  "glob d pre suf = filter (glob_star pre suf) (map fst d)"

text \<open>\<^verbatim>\<open>file.unlink()\<close>: it raises on a directory and on a missing entry.\<close>

definition unlink :: "string \<Rightarrow> directory \<Rightarrow> directory option" where
  "unlink name d =
     (case map_of d name of Some (File b) \<Rightarrow> Some (AList.delete name d) | _ \<Rightarrow> None)"

text \<open>
  One of the three loops of \<^verbatim>\<open>cleanup_old_versions\<close>. The first component is False when
  \<^verbatim>\<open>unlink\<close> raised: the exception leaves the \<^verbatim>\<open>try\<close> block.
\<close>

fun remove_old ::
  "(string \<Rightarrow> string option) \<Rightarrow> string \<Rightarrow> string list \<Rightarrow> directory \<Rightarrow> bool \<times> directory" where
  "remove_old re current [] d = (True, d)"
| "remove_old re current (name # rest) d =
     (case re name of
        Some file_version \<Rightarrow>
          if file_version \<noteq> current
          then (case unlink name d of
                  None \<Rightarrow> (False, d)
                | Some d' \<Rightarrow> remove_old re current rest d')
          else remove_old re current rest d
      | None \<Rightarrow> remove_old re current rest d)"

definition cleanup_old_versions :: "string \<Rightarrow> string \<Rightarrow> string \<Rightarrow> directory \<Rightarrow> directory" where
  "cleanup_old_versions current_docker_version current_compose_version arch d =
     (case remove_old (match_tgz ''docker-'') current_docker_version
             (glob d ''docker-'' (''-'' @ arch @ ''.tgz'')) d of
        (False, d1) \<Rightarrow> d1
      | (True, d1) \<Rightarrow>
     (case remove_old (match_tgz ''docker-rootless-extras-'') current_docker_version
             (glob d1 ''docker-rootless-extras-'' (''-'' @ arch @ ''.tgz'')) d1 of
        (False, d2) \<Rightarrow> d2
      | (True, d2) \<Rightarrow>
          snd (remove_old match_compose current_compose_version
                 (glob d2 ''docker-compose-linux-'' (''-'' @ arch)) d2)))"

section \<open>The checksum file\<close>

text \<open>\<^verbatim>\<open>name.rfind('.')\<close> and \<^verbatim>\<open>PurePath.suffix\<close> (Python 3.6 to 3.13).\<close>

fun rfind :: "char \<Rightarrow> string \<Rightarrow> nat option" where
  "rfind c [] = None"
| "rfind c (x # xs) =
     (case rfind c xs of
        Some i \<Rightarrow> Some (Suc i)
      | None \<Rightarrow> if x = c then Some 0 else None)"

definition py_suffix :: "string \<Rightarrow> string" where
  "py_suffix name =
     (case rfind CHR ''.'' name of
        Some i \<Rightarrow> if 0 < i \<and> int i < int (length name) - 1 then drop i name else []
      | None \<Rightarrow> [])"

definition listed :: "directory \<Rightarrow> string \<Rightarrow> bool" where
  "listed d name =
     (is_file d name \<and> (py_suffix name = ''.tgz'' \<or> py_suffix name = [])
      \<and> name \<noteq> ''SHA256SUMS'')"

definition checksum_line :: "world \<Rightarrow> directory \<Rightarrow> string \<Rightarrow> bytes" where
  "checksum_line w d name =
     (case read_file d name of
        Some content \<Rightarrow> sha256 w content @ ''  '' @ name @ [CHR 0x0A]
      | None \<Rightarrow> [])"

text \<open>
  \<^verbatim>\<open>open(checksums_file, 'w')\<close> raises when the path is a directory (the result is
  \<open>None\<close>); otherwise it creates or truncates the file before the directory is scanned.
\<close>

definition create_checksums_file :: "world \<Rightarrow> directory \<Rightarrow> directory option" where
  "create_checksums_file w d =
     (case map_of d ''SHA256SUMS'' of
        Some Directory \<Rightarrow> None
      | _ \<Rightarrow>
          let d1 = write_file ''SHA256SUMS'' [] d;
              files = sort (map fst d1)
          in Some (write_file ''SHA256SUMS''
                     (concat (map (checksum_line w d1) (filter (listed d1) files))) d1))"

section \<open>Downloads for one architecture, and for all of them\<close>

record arch_info =
  docker_arch :: string
  compose_arch :: string
  display_name :: string

definition arch_mapping :: "string \<Rightarrow> arch_info option" where
  "arch_mapping arch =
     (if arch = ''x86_64''
      then Some \<lparr>docker_arch = ''x86_64'', compose_arch = ''x86_64'',
                 display_name = ''x86_64 (AMD64)''\<rparr>
      else if arch = ''aarch64''
      then Some \<lparr>docker_arch = ''aarch64'', compose_arch = ''aarch64'',
                 display_name = ''ARM64 (aarch64)''\<rparr>
      else None)"

definition docker_filename :: "string \<Rightarrow> string \<Rightarrow> string" where
  "docker_filename version arch = ''docker-'' @ version @ ''-'' @ arch @ ''.tgz''"

definition compose_filename :: "string \<Rightarrow> string \<Rightarrow> string" where
  "compose_filename version arch = ''docker-compose-linux-'' @ version @ ''-'' @ arch"

definition rootless_filename :: "string \<Rightarrow> string \<Rightarrow> string" where
  "rootless_filename version arch = ''docker-rootless-extras-'' @ version @ ''-'' @ arch @ ''.tgz''"

text \<open>Lines 401 to 412: the compose slot. An empty URL is false in \<^verbatim>\<open>if compose_asset_url\<close>.\<close>

definition compose_slot ::
  "world \<Rightarrow> string \<Rightarrow> arch_info \<Rightarrow> string \<Rightarrow> updater \<Rightarrow> bool \<times> updater" where
  "compose_slot w arch info compose_version s =
     (case get_compose_asset_url w compose_version (compose_arch info) s of
        (Some compose_asset_url, s1) \<Rightarrow>
          if compose_asset_url \<noteq> []
          then (case download_file w compose_asset_url (compose_filename compose_version arch) 3 s1 of
                  (True, s2) \<Rightarrow> (True, emit (Chmod (compose_filename compose_version arch)) s2)
                | (False, s2) \<Rightarrow> (False, s2))
          else (False, s1)
      | (None, s1) \<Rightarrow> (False, s1))"

text \<open>Lines 414 to 435: the rootless-extras slot.\<close>

definition rootless_slot ::
  "world \<Rightarrow> string \<Rightarrow> arch_info \<Rightarrow> string \<Rightarrow> updater \<Rightarrow> bool \<times> updater" where
  "rootless_slot w arch info docker_version s =
     (case download_file w (rootless_url (docker_arch info) docker_version)
             (rootless_filename docker_version arch) 3 s of
        (True, s1) \<Rightarrow> (True, s1)
      | (False, s1) \<Rightarrow>
          (case list_rootless_versions w (docker_arch info) s1 of
             (avail_rootless, s2) \<Rightarrow>
               (case avail_rootless of
                  fallback # others \<Rightarrow>
                    download_file w (rootless_url (docker_arch info) fallback)
                      (rootless_filename fallback arch) 3 s2
                | [] \<Rightarrow> (False, s2))))"

text \<open>
  \<^verbatim>\<open>self.arch_mapping[arch]\<close> raises \<^verbatim>\<open>KeyError\<close> for an unknown architecture: the result
  is \<open>None\<close>. Otherwise the result is \<^verbatim>\<open>(success_count, total_count)\<close>.
\<close>

definition download_for_architecture ::
  "world \<Rightarrow> string \<Rightarrow> string \<Rightarrow> string \<Rightarrow> updater \<Rightarrow> ((nat \<times> nat) \<times> updater) option" where
  "download_for_architecture w arch docker_version compose_version s =
     (case arch_mapping arch of
        None \<Rightarrow> None
      | Some info \<Rightarrow>
          (case download_file w (docker_url (docker_arch info) docker_version)
                  (docker_filename docker_version arch) 3 s of
             (r1, s1) \<Rightarrow>
          (case compose_slot w arch info compose_version s1 of
             (r2, s2) \<Rightarrow>
          (case rootless_slot w arch info docker_version s2 of
             (r3, s3) \<Rightarrow>
               let results = [r1, r2, r3]
               in Some ((length (filter id results), length results), s3)))))"

text \<open>The first loop of \<^verbatim>\<open>update\<close> (lines 460 to 464), and the state \<^verbatim>\<open>__init__\<close> builds.\<close>

fun download_all ::
  "world \<Rightarrow> string list \<Rightarrow> string \<Rightarrow> string \<Rightarrow> nat \<times> nat \<Rightarrow> updater
     \<Rightarrow> ((nat \<times> nat) \<times> updater) option" where
  "download_all w [] docker_version compose_version totals s = Some (totals, s)"
| "download_all w (arch # rest) docker_version compose_version totals s =
     (case arch_mapping arch of
        None \<Rightarrow> None
      | Some info \<Rightarrow>
          (case resolve_static_version_for_arch w (docker_arch info) docker_version s of
             (resolved_version, s1) \<Rightarrow>
          (case download_for_architecture w arch resolved_version compose_version s1 of
             None \<Rightarrow> None
           | Some ((succ, cnt), s2) \<Rightarrow>
               download_all w rest docker_version compose_version
                 (fst totals + succ, snd totals + cnt) s2)))"

definition init_updater :: "directory \<Rightarrow> updater" where
  "init_updater d =
     \<lparr>output_dir = d,
      download_stats = \<lparr>success = 0, failed = 0, skipped = 0, total_size = 0\<rparr>,
      net_calls = 0, trace = []\<rparr>"

section \<open>Observations of a run\<close>

text \<open>
  The calls of \<^verbatim>\<open>download_file\<close> (URL and file name), the delays slept, and the requests
  and delays in the order they happened.
\<close>

fun fetches :: "event list \<Rightarrow> (string \<times> string) list" where
  "fetches [] = []"
| "fetches (Call url filename # t) = (url, filename) # fetches t"
| "fetches (e # t) = fetches t"

fun sleeps :: "event list \<Rightarrow> nat list" where
  "sleeps [] = []"
| "sleeps (Sleep n # t) = n # sleeps t"
| "sleeps (e # t) = sleeps t"

fun schedule :: "event list \<Rightarrow> event list" where
  "schedule [] = []"
| "schedule (Net r # t) = Net r # schedule t"
| "schedule (Sleep n # t) = Sleep n # schedule t"
| "schedule (e # t) = schedule t"

fun hashes :: "event list \<Rightarrow> (string \<times> bytes) list" where
  "hashes [] = []"
| "hashes (Hash filename b # t) = (filename, b) # hashes t"
| "hashes (e # t) = hashes t"

text \<open>Every opening of a destination for writing is followed at once by its deletion.\<close>

fun opens_unlinked :: "event list \<Rightarrow> bool" where
  "opens_unlinked [] = True"
| "opens_unlinked (Open_wb f # Unlink g # t) = (f = g \<and> opens_unlinked t)"
| "opens_unlinked (Open_wb f # t) = False"
| "opens_unlinked (e # t) = opens_unlinked t"

text \<open>
  The errors after which \<^verbatim>\<open>download_file\<close> goes on to the next attempt: every exception
  but an \<^verbatim>\<open>HTTPError\<close> with code 404.
\<close>

definition retryable :: "response \<Rightarrow> bool" where
  "retryable r =
     (case r of HTTPError code \<Rightarrow> code \<noteq> 404 | OtherError p \<Rightarrow> True | Body b \<Rightarrow> False)"

definition stats_total :: "updater \<Rightarrow> nat" where
  "stats_total s =
     success (download_stats s) + failed (download_stats s) + skipped (download_stats s)"

text \<open>
  The events of one attempt that ends in a retryable error, as a function of the answer
  the network gave, and of a run of such attempts that starts at request \<open>c\<close>.
\<close>

definition failed_attempt_events :: "string \<Rightarrow> string \<Rightarrow> nat \<Rightarrow> nat \<Rightarrow> response \<Rightarrow> event list" where
  "failed_attempt_events url f m a r =
     Net (GET url) # (case r of OtherError (Some p) \<Rightarrow> [Open_wb f, Unlink f] | _ \<Rightarrow> [])
       @ (if a + 1 < m then [Sleep (2 ^ a)] else [])"

fun retry_events :: "world \<Rightarrow> string \<Rightarrow> string \<Rightarrow> nat \<Rightarrow> nat \<Rightarrow> nat list \<Rightarrow> event list" where
  "retry_events w url f m c [] = []"
| "retry_events w url f m c (a # rest) =
     failed_attempt_events url f m a (network w c (GET url)) @ retry_events w url f m (Suc c) rest"

text \<open>
  Between two states, the three outcome counters together grew by the number of calls
  of \<^verbatim>\<open>download_file\<close> made in between.
\<close>

definition counted :: "updater \<Rightarrow> updater \<Rightarrow> bool" where
  "counted s s' =
     (stats_total s' + length (fetches (trace s)) = stats_total s + length (fetches (trace s')))"


text \<open>
  Iterating over a Python \<^verbatim>\<open>set\<close> yields each of its elements once, in some order.
\<close>

definition python_set :: "world \<Rightarrow> bool" where
  "python_set w = (\<forall>xs. distinct (set_order w xs) \<and> set (set_order w xs) = set xs)"

section \<open>The artifact families\<close>

text \<open>
  The three loops of \<^verbatim>\<open>cleanup_old_versions\<close>, one for each family of artifacts: the
  version a loop reads from a name (the name passes the loop's \<^verbatim>\<open>glob\<close> pattern and its
  regular expression), the argument the loop compares it with, and the names the loops
  remove. \<open>artifact_name\<close> is the file name \<^verbatim>\<open>download_for_architecture\<close> gives to an
  artifact, and \<open>is_version\<close> says that a string is \<open>major.minor.patch\<close>.
\<close>

datatype family = Runtime | Rootless | Compose

definition family_version :: "string \<Rightarrow> family \<Rightarrow> string \<Rightarrow> string option" where
  "family_version arch fam name =
     (case fam of
        Runtime \<Rightarrow>
          if glob_star ''docker-'' (''-'' @ arch @ ''.tgz'') name
          then match_tgz ''docker-'' name else None
      | Rootless \<Rightarrow>
          if glob_star ''docker-rootless-extras-'' (''-'' @ arch @ ''.tgz'') name
          then match_tgz ''docker-rootless-extras-'' name else None
      | Compose \<Rightarrow>
          if glob_star ''docker-compose-linux-'' (''-'' @ arch) name
          then match_compose name else None)"

definition current_version :: "string \<Rightarrow> string \<Rightarrow> family \<Rightarrow> string" where
  "current_version current_docker_version current_compose_version fam =
     (case fam of Compose \<Rightarrow> current_compose_version | _ \<Rightarrow> current_docker_version)"

definition outdated :: "(string \<Rightarrow> string option) \<Rightarrow> string \<Rightarrow> string \<Rightarrow> bool" where
  "outdated re current name = (case re name of Some v \<Rightarrow> v \<noteq> current | None \<Rightarrow> False)"

definition old_version :: "string \<Rightarrow> string \<Rightarrow> string \<Rightarrow> string \<Rightarrow> bool" where
  "old_version current_docker_version current_compose_version arch name =
     list_ex (\<lambda>fam. outdated (family_version arch fam)
                      (current_version current_docker_version current_compose_version fam) name)
       [Runtime, Rootless, Compose]"

definition artifact_name :: "family \<Rightarrow> string \<Rightarrow> string \<Rightarrow> string" where
  "artifact_name fam version arch =
     (case fam of
        Runtime \<Rightarrow> docker_filename version arch
      | Rootless \<Rightarrow> rootless_filename version arch
      | Compose \<Rightarrow> compose_filename version arch)"

definition is_version :: "string \<Rightarrow> bool" where
  "is_version v = (semver v = Some (v, []))"

section \<open>The order of versions in the words of the specification\<close>

text \<open>
  A version is \<open>major.minor.patch\<close>, three runs of decimal digits. \<open>decimal\<close> is the
  number a run of digits denotes, and \<open>not_newer\<close> compares two versions by major, then
  minor, then patch, each as a number.
\<close>

definition decimal :: "string \<Rightarrow> nat" where
  "decimal ds = (\<Sum>i<length ds. (of_char (ds ! i) - 48) * 10 ^ (length ds - Suc i))"

definition digits :: "string \<Rightarrow> bool" where
  "digits ds = (ds \<noteq> [] \<and> list_all is_digit ds)"

definition not_newer :: "nat \<times> nat \<times> nat \<Rightarrow> nat \<times> nat \<times> nat \<Rightarrow> bool" where
  "not_newer v v' =
     (fst v < fst v'
      \<or> (fst v = fst v'
          \<and> (fst (snd v) < fst (snd v')
              \<or> (fst (snd v) = fst (snd v') \<and> snd (snd v) \<le> snd (snd v')))))"

section \<open>Example environments\<close>

text \<open>
  Concrete environments and directories, for the examples that accompany the theorems.
  The digest of these environments is a placeholder that shows its input.
\<close>

definition example_world :: "(nat \<Rightarrow> request \<Rightarrow> response) \<Rightarrow> (bytes \<Rightarrow> asset list option) \<Rightarrow> world" where
  "example_world net assets =
     \<lparr>network = net, sha256 = (\<lambda>b. ''sha256 of '' @ b), set_order = remdups, json_assets = assets\<rparr>"

definition broken_transfer_world :: world where
  "broken_transfer_world = example_world (\<lambda>n r. OtherError (Some ''partial'')) (\<lambda>b. None)"

definition unavailable_then_missing_world :: world where
  "unavailable_then_missing_world =
     example_world (\<lambda>n r. if n = 0 then HTTPError 503 else HTTPError 404) (\<lambda>b. None)"

definition downloadable_world :: world where
  "downloadable_world = example_world (\<lambda>n r. Body ''content'') (\<lambda>b. None)"

definition release_assets :: "asset list" where
  "release_assets =
     [\<lparr>asset_name = ''checksums.txt'', browser_download_url = Some ''https://example.org/checksums.txt''\<rparr>,
      \<lparr>asset_name = ''docker-compose-linux-aarch64'',
       browser_download_url = Some ''https://example.org/docker-compose-linux-aarch64''\<rparr>,
      \<lparr>asset_name = ''docker-compose-linux-aarch64.exe'',
       browser_download_url = Some ''https://example.org/docker-compose-linux-aarch64.exe''\<rparr>]"

definition release_world :: world where
  "release_world = example_world (\<lambda>n r. Body ''{}'') (\<lambda>b. Some release_assets)"





definition rootless_fallback_world :: world where
  "rootless_fallback_world =
     example_world
       (\<lambda>n r. if r = GET (index_url ''x86_64'')
               then Body ''docker-27.3.0.tgz docker-rootless-extras-27.3.0.tgz''
               else if r = GET (rootless_url ''x86_64'' ''27.3.0'') then Body ''content''
               else HTTPError 404)
       (\<lambda>b. None)"

definition x86_64_info :: arch_info where
  "x86_64_info =
     \<lparr>docker_arch = ''x86_64'', compose_arch = ''x86_64'', display_name = ''x86_64 (AMD64)''\<rparr>"

definition binaries_and_reports :: directory where
  "binaries_and_reports =
     [(''VERSION.json'', File ''{}''),
      (''docker-27.4.1-x86_64.tgz'', File ''abc''),
      (''docker-27.4.1-aarch64.tgz'', File ''abd''),
      (''SHA256SUMS'', File ''left from the run before'')]"

definition mixed_versions :: directory where
  "mixed_versions =
     [(''docker-1.0.0-x86_64.tgz'', File ''a''),
      (''docker-1.1.0-x86_64.tgz'', File ''b''),
      (''docker-1.2.0-x86_64.tgz'', File ''c''),
      (''docker-1.0.0-aarch64.tgz'', File ''d''),
      (''docker-rootless-extras-1.2.0-x86_64.tgz'', File ''e''),
      (''docker-compose-linux-2.0.0-x86_64'', File ''f''),
      (''docker-notes-x86_64.tgz'', File ''g'')]"

definition rootless_listing_world :: world where
  "rootless_listing_world =
     example_world
       (\<lambda>n r. if r = GET (index_url ''x86_64'')
               then Body (''docker-rootless-extras-27.9.0.tgz docker-rootless-extras-27.10.0.tgz ''
                          @ ''docker-rootless-extras-27.3.0.tgz docker-27.11.0.tgz'')
               else if r = GET (rootless_url ''x86_64'' ''27.10.0'') then Body ''content''
               else HTTPError 404)
       (\<lambda>b. None)"

section \<open>Properties of download_file\<close>

subsection \<open>State projections\<close>

lemma read_write_file [simp]: "read_file (write_file f b d) f = Some b"
  by (simp add: read_file_def write_file_def update_conv')

lemma exists_write_file [simp]: "exists_path (write_file f b d) f"
  by (simp add: exists_path_def write_file_def update_conv')

lemma delete_write_file: "\<not> exists_path d f \<Longrightarrow> AList.delete f (write_file f b d) = d"
  by (simp add: exists_path_def write_file_def delete_update_same map_of_eq_None_iff)

lemma read_file_exists: "read_file d f = Some b \<Longrightarrow> exists_path d f"
  by (auto simp: read_file_def exists_path_def split: option.splits)

lemma emit_simps [simp]:
  "trace (emit e s) = trace s @ [e]"
  "output_dir (emit e s) = output_dir s"
  "download_stats (emit e s) = download_stats s"
  "net_calls (emit e s) = net_calls s"
  by (simp_all add: emit_def)

lemma incr_simps [simp]:
  "trace (incr_failed s) = trace s" "output_dir (incr_failed s) = output_dir s"
  "net_calls (incr_failed s) = net_calls s"
  "trace (incr_skipped s) = trace s" "output_dir (incr_skipped s) = output_dir s"
  "net_calls (incr_skipped s) = net_calls s"
  "trace (incr_success n s) = trace s" "output_dir (incr_success n s) = output_dir s"
  "net_calls (incr_success n s) = net_calls s"
  by (simp_all add: incr_failed_def incr_skipped_def incr_success_def)

lemma incr_stats [simp]:
  "download_stats (incr_failed s) = (download_stats s)\<lparr>failed := failed (download_stats s) + 1\<rparr>"
  "download_stats (incr_skipped s) = (download_stats s)\<lparr>skipped := skipped (download_stats s) + 1\<rparr>"
  "download_stats (incr_success n s) = (download_stats s)\<lparr>success := success (download_stats s) + 1,
      total_size := total_size (download_stats s) + n\<rparr>"
  by (simp_all add: incr_failed_def incr_skipped_def incr_success_def)

lemma backoff_simps [simp]:
  "output_dir (backoff m a s) = output_dir s"
  "download_stats (backoff m a s) = download_stats s"
  "net_calls (backoff m a s) = net_calls s"
  by (simp_all add: backoff_def)

lemma unlink_partial_simps [simp]:
  "download_stats (unlink_partial f s) = download_stats s"
  "net_calls (unlink_partial f s) = net_calls s"
  "\<not> exists_path (output_dir (unlink_partial f s)) f"
  by (simp_all add: unlink_partial_def exists_path_def delete_conv')

lemma open_wb_simps [simp]:
  "download_stats (open_wb f b s) = download_stats s"
  "net_calls (open_wb f b s) = net_calls s"
  "output_dir (open_wb f b s) = write_file f b (output_dir s)"
  "trace (open_wb f b s) = trace s @ [Open_wb f]"
  by (simp_all add: open_wb_def)

lemma urlopen_simps [simp]:
  "fst (urlopen w r s) = network w (net_calls s) r"
  "download_stats (snd (urlopen w r s)) = download_stats s"
  "net_calls (snd (urlopen w r s)) = Suc (net_calls s)"
  "output_dir (snd (urlopen w r s)) = output_dir s"
  "trace (snd (urlopen w r s)) = trace s @ [Net r]"
  by (simp_all add: urlopen_def)

lemma fetches_append [simp]: "fetches (a @ b) = fetches a @ fetches b"
  by (induction a rule: fetches.induct) simp_all

lemma sleeps_append [simp]: "sleeps (a @ b) = sleeps a @ sleeps b"
  by (induction a rule: sleeps.induct) simp_all

lemma schedule_append [simp]: "schedule (a @ b) = schedule a @ schedule b"
  by (induction a rule: schedule.induct) simp_all

lemma hashes_append [simp]: "hashes (a @ b) = hashes a @ hashes b"
  by (induction a rule: hashes.induct) simp_all

lemma fetches_backoff [simp]: "fetches (trace (backoff m a s)) = fetches (trace s)"
  by (simp add: backoff_def)

lemma fetches_unlink_partial [simp]: "fetches (trace (unlink_partial f s)) = fetches (trace s)"
  by (simp add: unlink_partial_def)

lemma attempt_retryable_step:
  assumes "retryable (network w (net_calls s) (GET url))" "\<not> exists_path (output_dir s) f"
  shows "download_attempts w url f m (a # rest) s =
         download_attempts w url f m rest
           (s\<lparr>net_calls := Suc (net_calls s),
              trace := trace s @ failed_attempt_events url f m a (network w (net_calls s) (GET url))\<rparr>)"
  using assms
  by (auto simp: retryable_def failed_attempt_events_def urlopen_def emit_def backoff_def
      unlink_partial_def open_wb_def delete_write_file Let_def split: response.splits option.splits)

lemma retry_prefix:
  assumes "\<forall>i<length pre. retryable (network w (net_calls s + i) (GET url))"
      and "\<not> exists_path (output_dir s) f"
  shows "download_attempts w url f m (pre @ rest) s =
         download_attempts w url f m rest
           (s\<lparr>net_calls := net_calls s + length pre,
              trace := trace s @ retry_events w url f m (net_calls s) pre\<rparr>)"
  using assms
proof (induction pre arbitrary: s)
  case Nil
  then show ?case by simp
next
  case (Cons a pre)
  let ?s1 = "s\<lparr>net_calls := Suc (net_calls s),
              trace := trace s @ failed_attempt_events url f m a (network w (net_calls s) (GET url))\<rparr>"
  from Cons.prems(1) have r0: "retryable (network w (net_calls s) (GET url))" by force
  have rs: "\<forall>i<length pre. retryable (network w (net_calls ?s1 + i) (GET url))"
  proof (intro allI impI)
    fix i assume "i < length pre"
    then have "Suc i < length (a # pre)" by simp
    with Cons.prems(1) have "retryable (network w (net_calls s + Suc i) (GET url))" by blast
    then show "retryable (network w (net_calls ?s1 + i) (GET url))" by simp
  qed
  have ex: "\<not> exists_path (output_dir ?s1) f" using Cons.prems(2) by simp
  have "download_attempts w url f m ((a # pre) @ rest) s = download_attempts w url f m (pre @ rest) ?s1"
    using attempt_retryable_step [OF r0 Cons.prems(2)] by simp
  also have "\<dots> = download_attempts w url f m rest
           (?s1\<lparr>net_calls := net_calls ?s1 + length pre,
              trace := trace ?s1 @ retry_events w url f m (net_calls ?s1) pre\<rparr>)"
    by (rule Cons.IH [OF rs ex])
  finally show ?case by simp
qed

lemma download_attempts_fetches:
  "fetches (trace (snd (download_attempts w url f m idx s))) = fetches (trace s)"
proof (induction idx arbitrary: s)
  case Nil
  then show ?case by simp
next
  case (Cons a idx)
  show ?case
    by (cases "urlopen w (GET url) s")
       (auto simp: Cons.IH Let_def urlopen_def split: response.splits option.splits)
qed

lemma download_attempts_outcome:
  "download_attempts w url f m idx s = (b, s') \<Longrightarrow>
     (b \<and> (\<exists>t content. trace s' = t @ [Hash f content]
            \<and> read_file (output_dir s') f = Some content
            \<and> download_stats s' = (download_stats s)
                 \<lparr>success := success (download_stats s) + 1,
                  total_size := total_size (download_stats s) + length content\<rparr>))
     \<or> (\<not> b \<and> download_stats s' = (download_stats s)\<lparr>failed := failed (download_stats s) + 1\<rparr>)"
proof (induction idx arbitrary: s)
  case Nil
  then show ?case by auto
next
  case (Cons a idx)
  obtain r s1 where u: "urlopen w (GET url) s = (r, s1)" by (cases "urlopen w (GET url) s")
  then have s1: "download_stats s1 = download_stats s"
    by (metis snd_conv urlopen_simps(2))
  show ?case
  proof (cases r)
    case (HTTPError code)
    show ?thesis
    proof (cases "code = 404")
      case True
      with Cons.prems u HTTPError s1 show ?thesis by auto
    next
      case False
      with Cons.prems u HTTPError
      have "download_attempts w url f m idx (backoff m a s1) = (b, s')" by simp
      from Cons.IH [OF this] s1 show ?thesis by simp
    qed
  next
    case (OtherError partial)
    with Cons.prems u
    have "download_attempts w url f m idx
            (backoff m a (unlink_partial f (case partial of None \<Rightarrow> s1 | Some p \<Rightarrow> open_wb f p s1)))
          = (b, s')" by (simp add: Let_def)
    from Cons.IH [OF this] s1 show ?thesis by (simp split: option.splits)
  next
    case (Body body)
    with Cons.prems u
    have "b" and "s' = incr_success (length body) (emit (Hash f body) (open_wb f body s1))"
      by (simp_all add: Let_def)
    with s1 show ?thesis by simp
  qed
qed

lemma retry_events_sleeps:
  "sleeps (retry_events w url f m c idx) = map (\<lambda>a. 2 ^ a) (filter (\<lambda>a. a + 1 < m) idx)"
  by (induction idx arbitrary: c)
     (auto simp: failed_attempt_events_def split: response.splits option.splits)

lemma retry_events_schedule:
  "schedule (retry_events w url f m c idx) =
     concat (map (\<lambda>a. Net (GET url) # (if a + 1 < m then [Sleep (2 ^ a)] else [])) idx)"
  by (induction idx arbitrary: c)
     (auto simp: failed_attempt_events_def split: response.splits option.splits)

lemma retry_events_fetches [simp]: "fetches (retry_events w url f m c idx) = []"
  by (induction idx arbitrary: c)
     (auto simp: failed_attempt_events_def split: response.splits option.splits)

lemma retry_events_hashes [simp]: "hashes (retry_events w url f m c idx) = []"
  by (induction idx arbitrary: c)
     (auto simp: failed_attempt_events_def split: response.splits option.splits)

lemma opens_unlinked_failed_attempt:
  "opens_unlinked (failed_attempt_events url f m a r @ t) = opens_unlinked t"
  by (auto simp: failed_attempt_events_def split: response.splits option.splits)

lemma retry_events_unlinked: "opens_unlinked (retry_events w url f m c idx @ t) = opens_unlinked t"
  by (induction idx arbitrary: c) (simp_all add: opens_unlinked_failed_attempt)

lemma filter_upt_before: "k < m \<Longrightarrow> filter (\<lambda>a. a + 1 < m) [0..<k] = [0..<k]"
  by (rule filter_True) simp

lemma filter_upt_budget: "filter (\<lambda>a. a + 1 < m) [0..<m] = [0..<m - 1]"
proof (cases m)
  case 0
  then show ?thesis by simp
next
  case (Suc n)
  have "filter (\<lambda>a. a + 1 < Suc n) [0..<n] = [0..<n]" by (rule filter_True) simp
  with Suc show ?thesis by simp
qed

lemma sorted_powers: "sorted (map (\<lambda>a. (2::nat) ^ a) [0..<n])"
  by (induction n) (auto simp: sorted_append)

lemma example_world_simps [simp]:
  "network (example_world net assets) = net"
  "sha256 (example_world net assets) b = ''sha256 of '' @ b"
  "set_order (example_world net assets) = remdups"
  "json_assets (example_world net assets) = assets"
  by (simp_all add: example_world_def)

lemma init_updater_simps [simp]:
  "output_dir (init_updater d) = d"
  "download_stats (init_updater d) = \<lparr>success = 0, failed = 0, skipped = 0, total_size = 0\<rparr>"
  "net_calls (init_updater d) = 0"
  "trace (init_updater d) = []"
  by (simp_all add: init_updater_def)

subsection \<open>The retry loop\<close>

lemma download_file_absent:
  "\<not> exists_path (output_dir s) f \<Longrightarrow>
   download_file w url f m s = download_attempts w url f m [0..<m] (emit (Call url f) s)"
  by (simp add: download_file_def Let_def)

lemma download_file_present:
  "exists_path (output_dir s) f \<Longrightarrow>
   download_file w url f m s = (True, incr_skipped (emit (Call url f) s))"
  by (simp add: download_file_def Let_def)

text \<open>
  Claim C2. When the destination does not exist and every attempt ends in a retryable
  error, \<^verbatim>\<open>download_file\<close> makes exactly \<open>max_retries\<close> requests, sleeps \<open>2 ^ attempt\<close>
  after attempt \<open>attempt\<close> whenever another attempt follows (so the delays are
  \<open>1, 2, 4, \<dots>\<close>, in non-decreasing order), deletes the destination again each time it
  was opened, leaves the directory as it was, counts one failure and returns False.
\<close>

theorem download_file_retry_bound:
  assumes absent: "\<not> exists_path (output_dir s) filename"
      and failing: "\<forall>i<max_retries. retryable (network w (net_calls s + i) (GET url))"
  shows "\<exists>s' evs. download_file w url filename max_retries s = (False, s')
      \<and> trace s' = trace s @ Call url filename # evs
      \<and> net_calls s' = net_calls s + max_retries
      \<and> schedule evs =
          concat (map (\<lambda>attempt. Net (GET url)
                         # (if attempt + 1 < max_retries then [Sleep (2 ^ attempt)] else []))
                    [0..<max_retries])
      \<and> sleeps evs = map (\<lambda>attempt. 2 ^ attempt) [0..<max_retries - 1]
      \<and> sorted (sleeps evs)
      \<and> opens_unlinked evs
      \<and> output_dir s' = output_dir s
      \<and> \<not> exists_path (output_dir s') filename
      \<and> download_stats s' = (download_stats s)\<lparr>failed := failed (download_stats s) + 1\<rparr>"
proof -
  let ?s0 = "emit (Call url filename) s"
  let ?evs = "retry_events w url filename max_retries (net_calls s) [0..<max_retries]"
  let ?s1 = "?s0\<lparr>net_calls := net_calls ?s0 + length [0..<max_retries],
                  trace := trace ?s0 @ retry_events w url filename max_retries (net_calls ?s0) [0..<max_retries]\<rparr>"
  have f0: "\<forall>i<length [0..<max_retries]. retryable (network w (net_calls ?s0 + i) (GET url))"
    using failing by simp
  have a0: "\<not> exists_path (output_dir ?s0) filename" using absent by simp
  have "download_file w url filename max_retries s
        = download_attempts w url filename max_retries ([0..<max_retries] @ []) ?s0"
    using absent by (simp add: download_file_absent)
  also have "\<dots> = download_attempts w url filename max_retries [] ?s1"
    by (rule retry_prefix [OF f0 a0])
  finally have run: "download_file w url filename max_retries s = (False, incr_failed ?s1)"
    by simp
  have sl: "sleeps ?evs = map (\<lambda>attempt. 2 ^ attempt) [0..<max_retries - 1]"
    by (simp only: retry_events_sleeps filter_upt_budget)
  have "trace (incr_failed ?s1) = trace s @ Call url filename # ?evs" by simp
  moreover have "net_calls (incr_failed ?s1) = net_calls s + max_retries" by simp
  moreover have "sorted (sleeps ?evs)" unfolding sl by (rule sorted_powers)
  moreover have "opens_unlinked ?evs" using retry_events_unlinked [where t = "[]"] by simp
  moreover have "output_dir (incr_failed ?s1) = output_dir s" by simp
  moreover have "download_stats (incr_failed ?s1)
        = (download_stats s)\<lparr>failed := failed (download_stats s) + 1\<rparr>" by simp
  ultimately show ?thesis using run sl absent retry_events_schedule by auto
qed


theorem download_file_retry_bound_witness:
  "\<not> exists_path (output_dir (init_updater [])) ''f''
   \<and> retryable (network broken_transfer_world 0 (GET ''u''))
   \<and> retryable (network broken_transfer_world 1 (GET ''u''))
   \<and> retryable (network broken_transfer_world 2 (GET ''u''))
   \<and> fst (download_file broken_transfer_world ''u'' ''f'' 3 (init_updater [])) = False
   \<and> net_calls (snd (download_file broken_transfer_world ''u'' ''f'' 3 (init_updater []))) = 3
   \<and> sleeps (trace (snd (download_file broken_transfer_world ''u'' ''f'' 3 (init_updater [])))) = [1, 2]
   \<and> output_dir (snd (download_file broken_transfer_world ''u'' ''f'' 3 (init_updater []))) = []"
proof -
  have a: "\<not> exists_path (output_dir (init_updater [])) ''f''"
    by (simp add: exists_path_def)
  have f: "\<forall>i<3. retryable (network broken_transfer_world (net_calls (init_updater []) + i) (GET ''u''))"
    by (simp add: broken_transfer_world_def retryable_def)
  from download_file_retry_bound [OF a f] obtain s' evs where
    "download_file broken_transfer_world ''u'' ''f'' 3 (init_updater []) = (False, s')"
    "trace s' = trace (init_updater []) @ Call ''u'' ''f'' # evs"
    "net_calls s' = net_calls (init_updater []) + 3"
    "sleeps evs = map (\<lambda>attempt. 2 ^ attempt) [0..<3 - 1]"
    "output_dir s' = output_dir (init_updater [])"
    by blast
  with a f show ?thesis by (simp add: upt_rec)
qed

lemma upt_split_at:
  assumes "k < m"
  shows "[0..<m] = [0..<k] @ k # [Suc k..<m]"
proof -
  from assms obtain d where m: "m = k + Suc d"
    using less_imp_Suc_add by auto
  have "[0..<k + Suc d] = [0..<k] @ [k..<k + Suc d]"
    by (rule upt_add_eq_append) simp
  also have "[k..<k + Suc d] = k # [Suc k..<k + Suc d]"
    by (rule upt_conv_Cons) simp
  finally show ?thesis using m by simp
qed

text \<open>
  Claim C3, as amended. When the destination does not exist, the first \<open>k\<close> attempts
  end in retryable errors and the next one is answered by status 404, the 404 is the
  last request: \<open>k + 1\<close> attempts are made, only the \<open>k\<close> delays before the 404 are
  slept, one failure is counted and the result is False. For \<open>k = 0\<close> this is exactly one
  attempt and no delay.
\<close>

theorem download_file_not_found_stops:
  assumes absent: "\<not> exists_path (output_dir s) filename"
      and budget: "k < max_retries"
      and failing: "\<forall>i<k. retryable (network w (net_calls s + i) (GET url))"
      and missing: "network w (net_calls s + k) (GET url) = HTTPError 404"
  shows "\<exists>s' evs. download_file w url filename max_retries s = (False, s')
      \<and> trace s' = trace s @ Call url filename # evs @ [Net (GET url)]
      \<and> net_calls s' = net_calls s + k + 1
      \<and> sleeps evs = map (\<lambda>attempt. 2 ^ attempt) [0..<k]
      \<and> (k = 0 \<longrightarrow> evs = [])
      \<and> output_dir s' = output_dir s
      \<and> download_stats s' = (download_stats s)\<lparr>failed := failed (download_stats s) + 1\<rparr>"
proof -
  let ?s0 = "emit (Call url filename) s"
  let ?evs = "retry_events w url filename max_retries (net_calls s) [0..<k]"
  let ?s1 = "?s0\<lparr>net_calls := net_calls ?s0 + length [0..<k],
                  trace := trace ?s0 @ retry_events w url filename max_retries (net_calls ?s0) [0..<k]\<rparr>"
  let ?s2 = "incr_failed (snd (urlopen w (GET url) ?s1))"
  have f0: "\<forall>i<length [0..<k]. retryable (network w (net_calls ?s0 + i) (GET url))"
    using failing by simp
  have a0: "\<not> exists_path (output_dir ?s0) filename" using absent by simp
  have "download_file w url filename max_retries s
        = download_attempts w url filename max_retries ([0..<k] @ k # [Suc k..<max_retries]) ?s0"
    using absent upt_split_at [OF budget] by (simp add: download_file_absent)
  also have "\<dots> = download_attempts w url filename max_retries (k # [Suc k..<max_retries]) ?s1"
    by (rule retry_prefix [OF f0 a0])
  also have "\<dots> = (False, ?s2)"
    using missing by (simp add: urlopen_def)
  finally have run: "download_file w url filename max_retries s = (False, ?s2)" .
  have sl: "sleeps ?evs = map (\<lambda>attempt. 2 ^ attempt) [0..<k]"
    using budget by (simp only: retry_events_sleeps filter_upt_before)
  have "trace ?s2 = trace s @ Call url filename # ?evs @ [Net (GET url)]" by simp
  moreover have "net_calls ?s2 = net_calls s + k + 1" by simp
  moreover have "k = 0 \<longrightarrow> ?evs = []" by simp
  moreover have "output_dir ?s2 = output_dir s" by simp
  moreover have "download_stats ?s2
        = (download_stats s)\<lparr>failed := failed (download_stats s) + 1\<rparr>" by simp
  ultimately show ?thesis using run sl by blast
qed

theorem download_file_not_found_stops_witness:
  "\<not> exists_path (output_dir (init_updater [])) ''f''
   \<and> (1::nat) < 3
   \<and> retryable (network unavailable_then_missing_world 0 (GET ''u''))
   \<and> network unavailable_then_missing_world (net_calls (init_updater []) + 1) (GET ''u'') = HTTPError 404
   \<and> fst (download_file unavailable_then_missing_world ''u'' ''f'' 3 (init_updater [])) = False
   \<and> failed (download_stats (snd (download_file unavailable_then_missing_world ''u'' ''f'' 3 (init_updater [])))) = 1"
proof -
  have a: "\<not> exists_path (output_dir (init_updater [])) ''f''"
    by (simp add: exists_path_def)
  have b: "(1::nat) < 3" by simp
  have f: "\<forall>i<1. retryable (network unavailable_then_missing_world (net_calls (init_updater []) + i) (GET ''u''))"
    by (simp add: unavailable_then_missing_world_def retryable_def)
  have m: "network unavailable_then_missing_world (net_calls (init_updater []) + 1) (GET ''u'') = HTTPError 404"
    by (simp add: unavailable_then_missing_world_def)
  from download_file_not_found_stops [OF a b f m] obtain s' where
    "download_file unavailable_then_missing_world ''u'' ''f'' 3 (init_updater []) = (False, s')"
    "download_stats s' = (download_stats (init_updater []))
        \<lparr>failed := failed (download_stats (init_updater [])) + 1\<rparr>"
    by blast
  with a f m show ?thesis by simp
qed

text \<open>
  Claim C3 as stated fails when the 404 is not the first answer: after a status 503 and
  then a 404, two attempts were made and one delay was slept.
\<close>

theorem not_found_after_retry_counterexample:
  "network unavailable_then_missing_world 1 (GET ''u'') = HTTPError 404
   \<and> net_calls (snd (download_file unavailable_then_missing_world ''u'' ''f'' 3 (init_updater []))) = 2
   \<and> sleeps (trace (snd (download_file unavailable_then_missing_world ''u'' ''f'' 3 (init_updater [])))) = [1]"
  by (simp add: unavailable_then_missing_world_def download_file_def exists_path_def Let_def
      urlopen_def upt_rec backoff_def)

subsection \<open>Existing destinations and successful downloads\<close>

lemma download_file_success_exists:
  assumes "download_file w url f m s = (True, s')"
  shows "exists_path (output_dir s') f"
proof (cases "exists_path (output_dir s) f")
  case True
  with assms show ?thesis by (auto simp: download_file_present)
next
  case False
  with assms have "download_attempts w url f m [0..<m] (emit (Call url f) s) = (True, s')"
    by (simp add: download_file_absent)
  from download_attempts_outcome [OF this] show ?thesis
    by (auto dest: read_file_exists)
qed

text \<open>
  Claim C4. When the destination exists at the call, \<^verbatim>\<open>download_file\<close> makes no request,
  counts the call as skipped, returns True and leaves the directory, and so the file, as
  it was. A call that returned True leaves the destination in place, so a second call
  for the same file name right after it is skipped in the same way, with no request.
\<close>

theorem download_file_skips_existing:
  "(exists_path (output_dir s) filename \<longrightarrow>
      (\<exists>s'. download_file w url filename max_retries s = (True, s')
         \<and> net_calls s' = net_calls s
         \<and> trace s' = trace s @ [Call url filename]
         \<and> output_dir s' = output_dir s
         \<and> download_stats s' = (download_stats s)\<lparr>skipped := skipped (download_stats s) + 1\<rparr>))
   \<and> (download_file w url filename max_retries s = (True, s1) \<longrightarrow>
      (\<exists>s2. download_file w url' filename max_retries' s1 = (True, s2)
         \<and> net_calls s2 = net_calls s1
         \<and> trace s2 = trace s1 @ [Call url' filename]
         \<and> output_dir s2 = output_dir s1
         \<and> download_stats s2 = (download_stats s1)\<lparr>skipped := skipped (download_stats s1) + 1\<rparr>))"
proof -
  have skip: "\<exists>s'. download_file w u filename m t = (True, s')
         \<and> net_calls s' = net_calls t
         \<and> trace s' = trace t @ [Call u filename]
         \<and> output_dir s' = output_dir t
         \<and> download_stats s' = (download_stats t)\<lparr>skipped := skipped (download_stats t) + 1\<rparr>"
    if "exists_path (output_dir t) filename" for t u m
    using that by (simp add: download_file_present)
  show ?thesis
    using skip download_file_success_exists by blast
qed

lemma download_file_downloadable:
  "download_file downloadable_world ''u'' ''f'' 3 (init_updater []) =
     (True, \<lparr>output_dir = [(''f'', File ''content'')],
             download_stats = \<lparr>success = 1, failed = 0, skipped = 0, total_size = 7\<rparr>,
             net_calls = 1,
             trace = [Call ''u'' ''f'', Net (GET ''u''), Open_wb ''f'', Hash ''f'' ''content'']\<rparr>)"
  by (simp add: downloadable_world_def download_file_def exists_path_def Let_def
      urlopen_def upt_rec open_wb_def write_file_def read_file_def emit_def incr_success_def
      init_updater_def)

theorem download_file_skips_existing_witness:
  "exists_path (output_dir (init_updater [(''f'', File ''old'')])) ''f''
   \<and> download_file broken_transfer_world ''u'' ''f'' 3 (init_updater [(''f'', File ''old'')])
       = (True, \<lparr>output_dir = [(''f'', File ''old'')],
                 download_stats = \<lparr>success = 0, failed = 0, skipped = 1, total_size = 0\<rparr>,
                 net_calls = 0, trace = [Call ''u'' ''f'']\<rparr>)
   \<and> fst (download_file downloadable_world ''u'' ''f'' 3 (init_updater []))
   \<and> fst (download_file downloadable_world ''u'' ''f'' 3
            (snd (download_file downloadable_world ''u'' ''f'' 3 (init_updater []))))
   \<and> net_calls (snd (download_file downloadable_world ''u'' ''f'' 3
            (snd (download_file downloadable_world ''u'' ''f'' 3 (init_updater []))))) = 1"
proof -
  let ?s = "init_updater [(''f'', File ''old'')]"
  have e: "exists_path (output_dir ?s) ''f''" by (simp add: exists_path_def)
  from download_file_skips_existing [of ?s "''f''" broken_transfer_world "''u''" 3] e
  obtain s' where s': "download_file broken_transfer_world ''u'' ''f'' 3 ?s = (True, s')"
    "net_calls s' = net_calls ?s" "trace s' = trace ?s @ [Call ''u'' ''f'']"
    "output_dir s' = output_dir ?s"
    "download_stats s' = (download_stats ?s)\<lparr>skipped := skipped (download_stats ?s) + 1\<rparr>"
    by blast
  then have first: "download_file broken_transfer_world ''u'' ''f'' 3 ?s
       = (True, \<lparr>output_dir = [(''f'', File ''old'')],
                 download_stats = \<lparr>success = 0, failed = 0, skipped = 1, total_size = 0\<rparr>,
                 net_calls = 0, trace = [Call ''u'' ''f'']\<rparr>)"
    by (cases s') simp
  let ?t = "snd (download_file downloadable_world ''u'' ''f'' 3 (init_updater []))"
  have d: "download_file downloadable_world ''u'' ''f'' 3 (init_updater []) = (True, ?t)"
    by (simp add: download_file_downloadable)
  from download_file_skips_existing [of "init_updater []" "''f''" downloadable_world "''u''" 3 ?t "''u''" 3] d
  obtain s2 where "download_file downloadable_world ''u'' ''f'' 3 ?t = (True, s2)"
    "net_calls s2 = net_calls ?t" by blast
  with e first d show ?thesis by (simp add: download_file_downloadable)
qed

text \<open>
  Claim C8, as amended. Whenever \<^verbatim>\<open>download_file\<close> returns True the destination exists.
  When it did not exist at the call, the last event before the return is the hashing of
  that file, on the content the file holds at the return. When it existed at the call,
  the call is skipped: the only event is the call itself, and no digest is computed.
\<close>

theorem download_file_success_file_and_digest:
  assumes "download_file w url filename max_retries s = (True, s')"
  shows "exists_path (output_dir s') filename
     \<and> (\<not> exists_path (output_dir s) filename \<longrightarrow>
          (\<exists>t content. trace s' = t @ [Hash filename content]
             \<and> read_file (output_dir s') filename = Some content))
     \<and> (exists_path (output_dir s) filename \<longrightarrow>
          trace s' = trace s @ [Call url filename] \<and> output_dir s' = output_dir s)"
proof (cases "exists_path (output_dir s) filename")
  case True
  with assms show ?thesis by (auto simp: download_file_present)
next
  case False
  with assms have "download_attempts w url filename max_retries [0..<max_retries]
      (emit (Call url filename) s) = (True, s')"
    by (simp add: download_file_absent)
  from download_attempts_outcome [OF this] False show ?thesis
    by (auto dest: read_file_exists)
qed

theorem download_file_success_file_and_digest_witness:
  "download_file downloadable_world ''u'' ''f'' 3 (init_updater [])
     = (True, snd (download_file downloadable_world ''u'' ''f'' 3 (init_updater [])))
   \<and> exists_path (output_dir (snd (download_file downloadable_world ''u'' ''f'' 3 (init_updater [])))) ''f''
   \<and> hashes (trace (snd (download_file downloadable_world ''u'' ''f'' 3 (init_updater []))))
       = [(''f'', ''content'')]"
proof -
  let ?t = "snd (download_file downloadable_world ''u'' ''f'' 3 (init_updater []))"
  have d: "download_file downloadable_world ''u'' ''f'' 3 (init_updater []) = (True, ?t)"
    by (simp add: download_file_downloadable)
  from download_file_success_file_and_digest [OF d]
  have "exists_path (output_dir ?t) ''f''" by blast
  with d show ?thesis by (simp add: download_file_downloadable)
qed

text \<open>
  Claim C8 as stated fails on the skipped path: the call returns True and no digest was
  computed.
\<close>

theorem skipped_without_digest_counterexample:
  "fst (download_file downloadable_world ''u'' ''f'' 3 (init_updater [(''f'', File ''old'')]))
   \<and> hashes (trace (snd (download_file downloadable_world ''u'' ''f'' 3
                 (init_updater [(''f'', File ''old'')])))) = []"
  by (simp add: download_file_def exists_path_def Let_def)

subsection \<open>The run statistics\<close>

lemma counted_refl [simp]: "counted s s"
  by (simp add: counted_def)

lemma counted_trans: "counted s s1 \<Longrightarrow> counted s1 s2 \<Longrightarrow> counted s s2"
  by (simp add: counted_def)

lemma counted_same:
  "download_stats s' = download_stats s \<Longrightarrow> fetches (trace s') = fetches (trace s) \<Longrightarrow> counted s s'"
  by (simp add: counted_def stats_total_def)

lemma counted_urlopen: "urlopen w r s = (x, s') \<Longrightarrow> counted s s'"
  by (rule counted_same) (auto simp: urlopen_def)

lemma counted_emit_chmod: "counted s (emit (Chmod f) s)"
  by (rule counted_same) simp_all

lemma counted_check_url_exists: "check_url_exists w url s = (b, s') \<Longrightarrow> counted s s'"
  by (auto simp: check_url_exists_def split: prod.splits response.splits dest: counted_urlopen)

lemma counted_list_versions: "list_versions w pre arch s = (vs, s') \<Longrightarrow> counted s s'"
  by (auto simp: list_versions_def split: prod.splits response.splits dest: counted_urlopen)

lemma counted_resolve:
  "resolve_static_version_for_arch w arch v s = (v', s') \<Longrightarrow> counted s s'"
  by (auto simp: resolve_static_version_for_arch_def list_static_versions_def
      split: prod.splits bool.splits list.splits
      dest!: counted_check_url_exists counted_list_versions intro: counted_trans)

lemma counted_get_compose_asset_url:
  "get_compose_asset_url w v arch s = (u, s') \<Longrightarrow> counted s s'"
  by (auto simp: get_compose_asset_url_def split: prod.splits response.splits option.splits
      dest: counted_urlopen)

lemma download_file_tally:
  assumes "download_file w url f m s = (b, s')"
  shows "stats_total s' = stats_total s + 1"
    and "fetches (trace s') = fetches (trace s) @ [(url, f)]"
proof -
  show "stats_total s' = stats_total s + 1"
  proof (cases "exists_path (output_dir s) f")
    case True
    with assms show ?thesis by (auto simp: download_file_present stats_total_def)
  next
    case False
    with assms have "download_attempts w url f m [0..<m] (emit (Call url f) s) = (b, s')"
      by (simp add: download_file_absent)
    from download_attempts_outcome [OF this] show ?thesis
      by (auto simp: stats_total_def)
  qed
  show "fetches (trace s') = fetches (trace s) @ [(url, f)]"
  proof (cases "exists_path (output_dir s) f")
    case True
    with assms show ?thesis by (auto simp: download_file_present)
  next
    case False
    with assms have "download_attempts w url f m [0..<m] (emit (Call url f) s) = (b, s')"
      by (simp add: download_file_absent)
    then have "s' = snd (download_attempts w url f m [0..<m] (emit (Call url f) s))" by simp
    then show ?thesis by (simp add: download_attempts_fetches)
  qed
qed

lemma counted_download_file: "download_file w url f m s = (b, s') \<Longrightarrow> counted s s'"
  using download_file_tally [of w url f m s b s'] by (simp add: counted_def)

lemma counted_compose_slot: "compose_slot w arch info v s = (b, s') \<Longrightarrow> counted s s'"
  by (auto simp: compose_slot_def split: prod.splits option.splits if_splits bool.splits
      dest!: counted_get_compose_asset_url counted_download_file
      intro: counted_trans counted_emit_chmod)

lemma counted_rootless_slot: "rootless_slot w arch info v s = (b, s') \<Longrightarrow> counted s s'"
  by (auto simp: rootless_slot_def list_rootless_versions_def
      split: prod.splits bool.splits list.splits
      dest!: counted_list_versions counted_download_file intro: counted_trans)

lemma counted_download_for_architecture:
  "download_for_architecture w arch dv cv s = Some (r, s') \<Longrightarrow> counted s s'"
  by (auto simp: download_for_architecture_def Let_def split: option.splits prod.splits
      dest!: counted_download_file counted_compose_slot counted_rootless_slot
      intro: counted_trans)

lemma counted_download_all:
  "download_all w archs dv cv totals s = Some (totals', s') \<Longrightarrow> counted s s'"
proof (induction archs arbitrary: totals s)
  case Nil
  then show ?case by simp
next
  case (Cons arch archs)
  then show ?case
    by (auto split: option.splits prod.splits
        dest!: counted_resolve counted_download_for_architecture intro: counted_trans)
qed


text \<open>
  Claim C10. Every call of \<^verbatim>\<open>download_file\<close> returns, and increments exactly one of
  \<open>success\<close>, \<open>failed\<close> and \<open>skipped\<close>, by one; \<open>total_size\<close> changes only together with
  \<open>success\<close>, by the size of the file on disk; the result is True exactly when \<open>success\<close>
  or \<open>skipped\<close> was incremented. Hence after the download loop of a run, started from
  the counters \<^verbatim>\<open>__init__\<close> sets, \<open>success + failed + skipped\<close> is the number of calls of
  \<^verbatim>\<open>download_file\<close> made.
\<close>

theorem download_file_counters:
  "(\<exists>b s'. download_file w url filename max_retries s = (b, s')
      \<and> ((success (download_stats s') = success (download_stats s) + 1
           \<and> failed (download_stats s') = failed (download_stats s)
           \<and> skipped (download_stats s') = skipped (download_stats s)
           \<and> (\<exists>content. read_file (output_dir s') filename = Some content
                 \<and> total_size (download_stats s') = total_size (download_stats s) + length content)
           \<and> b)
         \<or> (success (download_stats s') = success (download_stats s)
           \<and> failed (download_stats s') = failed (download_stats s) + 1
           \<and> skipped (download_stats s') = skipped (download_stats s)
           \<and> total_size (download_stats s') = total_size (download_stats s)
           \<and> \<not> b)
         \<or> (success (download_stats s') = success (download_stats s)
           \<and> failed (download_stats s') = failed (download_stats s)
           \<and> skipped (download_stats s') = skipped (download_stats s) + 1
           \<and> total_size (download_stats s') = total_size (download_stats s)
           \<and> b))
      \<and> stats_total s' = stats_total s + 1
      \<and> fetches (trace s') = fetches (trace s) @ [(url, filename)])
   \<and> (download_all w archs docker_version compose_version (0, 0) (init_updater d) = Some (totals, s'')
        \<longrightarrow> stats_total s'' = length (fetches (trace s'')))"
proof (intro conjI impI)
  obtain b s' where run: "download_file w url filename max_retries s = (b, s')"
    by (cases "download_file w url filename max_retries s")
  have cases3: "(success (download_stats s') = success (download_stats s) + 1
           \<and> failed (download_stats s') = failed (download_stats s)
           \<and> skipped (download_stats s') = skipped (download_stats s)
           \<and> (\<exists>content. read_file (output_dir s') filename = Some content
                 \<and> total_size (download_stats s') = total_size (download_stats s) + length content)
           \<and> b)
         \<or> (success (download_stats s') = success (download_stats s)
           \<and> failed (download_stats s') = failed (download_stats s) + 1
           \<and> skipped (download_stats s') = skipped (download_stats s)
           \<and> total_size (download_stats s') = total_size (download_stats s)
           \<and> \<not> b)
         \<or> (success (download_stats s') = success (download_stats s)
           \<and> failed (download_stats s') = failed (download_stats s)
           \<and> skipped (download_stats s') = skipped (download_stats s) + 1
           \<and> total_size (download_stats s') = total_size (download_stats s)
           \<and> b)"
  proof (cases "exists_path (output_dir s) filename")
    case True
    with run show ?thesis by (auto simp: download_file_present)
  next
    case False
    with run have "download_attempts w url filename max_retries [0..<max_retries]
        (emit (Call url filename) s) = (b, s')"
      by (simp add: download_file_absent)
    from download_attempts_outcome [OF this] show ?thesis by auto
  qed
  from run cases3 download_file_tally [OF run]
  show "\<exists>b s'. download_file w url filename max_retries s = (b, s')
      \<and> ((success (download_stats s') = success (download_stats s) + 1
           \<and> failed (download_stats s') = failed (download_stats s)
           \<and> skipped (download_stats s') = skipped (download_stats s)
           \<and> (\<exists>content. read_file (output_dir s') filename = Some content
                 \<and> total_size (download_stats s') = total_size (download_stats s) + length content)
           \<and> b)
         \<or> (success (download_stats s') = success (download_stats s)
           \<and> failed (download_stats s') = failed (download_stats s) + 1
           \<and> skipped (download_stats s') = skipped (download_stats s)
           \<and> total_size (download_stats s') = total_size (download_stats s)
           \<and> \<not> b)
         \<or> (success (download_stats s') = success (download_stats s)
           \<and> failed (download_stats s') = failed (download_stats s)
           \<and> skipped (download_stats s') = skipped (download_stats s) + 1
           \<and> total_size (download_stats s') = total_size (download_stats s)
           \<and> b))
      \<and> stats_total s' = stats_total s + 1
      \<and> fetches (trace s') = fetches (trace s) @ [(url, filename)]"
    by blast
next
  assume "download_all w archs docker_version compose_version (0, 0) (init_updater d) = Some (totals, s'')"
  from counted_download_all [OF this]
  show "stats_total s'' = length (fetches (trace s''))"
    by (simp add: counted_def stats_total_def)
qed

lemma download_all_example:
  "download_all downloadable_world [''x86_64''] ''1.0.0'' ''2.0.0'' (0, 0) (init_updater []) \<noteq> None"
  by code_simp

theorem download_file_counters_witness:
  "fst (the (download_all downloadable_world [''x86_64''] ''1.0.0'' ''2.0.0'' (0, 0) (init_updater [])))
     = (2, 3)
   \<and> stats_total (snd (the (download_all downloadable_world [''x86_64''] ''1.0.0'' ''2.0.0'' (0, 0)
        (init_updater []))))
     = length (fetches (trace (snd (the (download_all downloadable_world [''x86_64''] ''1.0.0''
        ''2.0.0'' (0, 0) (init_updater []))))))
   \<and> length (fetches (trace (snd (the (download_all downloadable_world [''x86_64''] ''1.0.0''
        ''2.0.0'' (0, 0) (init_updater [])))))) = 2"
proof -
  let ?run = "download_all downloadable_world [''x86_64''] ''1.0.0'' ''2.0.0'' (0, 0) (init_updater [])"
  from download_all_example obtain totals s'' where r: "?run = Some (totals, s'')"
    by (cases ?run) auto
  from download_file_counters [of downloadable_world "''u''" "''f''" 3 "init_updater []"
      "[''x86_64'']" "''1.0.0''" "''2.0.0''" "[]" totals s''] r
  have "stats_total s'' = length (fetches (trace s''))" by blast
  with r have a: "stats_total (snd (the ?run)) = length (fetches (trace (snd (the ?run))))"
    by simp
  have b: "fst (the ?run) = (2, 3)" by code_simp
  have c: "length (fetches (trace (snd (the ?run)))) = 2" by code_simp
  from a b c show ?thesis by blast
qed

section \<open>Properties of the asset lookup\<close>





section \<open>Properties of the version resolution\<close>

lemma findall_groups:
  "g \<in> set (findall re s) \<Longrightarrow> \<exists>t r. re t = Some (g, r)"
proof (induction re s rule: findall.induct)
  case (1 re s)
  show ?case
  proof (cases "re s")
    case None
    with "1.prems" have s: "s \<noteq> []" and g: "g \<in> set (findall re (tl s))"
      by (auto simp: findall.simps [of re s] split: if_splits)
    from "1.IH" None s g show ?thesis by blast
  next
    case (Some p)
    obtain g' r where p: "p = (g', r)" by (cases p)
    show ?thesis
    proof (cases "g = g'")
      case True
      with Some p show ?thesis by blast
    next
      case False
      show ?thesis
      proof (cases "length r < length s")
        case True
        with "1.prems" Some p False have "g \<in> set (findall re r)"
          by (auto simp: findall.simps [of re s])
        with "1.IH" Some p True show ?thesis by blast
      next
        case nl: False
        with "1.prems" Some p False have s: "s \<noteq> []" and g: "g \<in> set (findall re (tl s))"
          by (auto simp: findall.simps [of re s] split: if_splits)
        from "1.IH" Some p nl s g show ?thesis by blast
      qed
    qed
  qed
qed




lemma sorted_versions_set: "set (sorted_versions w vs) = set (set_order w vs)"
  by (simp add: sorted_versions_def)


lemma sorted_versions_descending: "sorted (rev (map version_key (sorted_versions w vs)))"
  by (simp add: sorted_versions_def rev_map)

lemma descending_hd_max:
  assumes "sorted (rev (map f (x # xs)))" "v \<in> set (x # xs)"
  shows "f v \<le> f x"
  using assms by (auto simp: sorted_append)



lemma list_versions_eq:
  "list_versions w pre arch s =
     ((case network w (net_calls s) (GET (index_url arch)) of
         Body html \<Rightarrow> sorted_versions w (findall (re_versioned_tgz pre) html)
       | HTTPError code \<Rightarrow> []
       | OtherError p \<Rightarrow> []),
      snd (urlopen w (GET (index_url arch)) s))"
  by (auto simp: list_versions_def urlopen_def split: response.splits)



lemma list_versions_descending:
  assumes "list_versions w pre arch s = (avail, s')"
  shows "sorted (rev (map version_key avail))"
  using assms
  by (auto simp: list_versions_eq sorted_versions_descending split: response.splits)

lemma list_versions_content:
  assumes "python_set w" "list_versions w pre arch s = (avail, s')"
  shows "case network w (net_calls s) (GET (index_url arch)) of
           Body html \<Rightarrow> set avail = set (findall (re_versioned_tgz pre) html)
         | HTTPError code \<Rightarrow> avail = []
         | OtherError p \<Rightarrow> avail = []"
  using assms
  by (auto simp: list_versions_eq sorted_versions_set python_set_def split: response.splits)



lemma python_set_example [simp]: "python_set (example_world net assets)"
  by (simp add: python_set_def)


section \<open>The events of a download\<close>

lemma download_attempts_extends:
  "\<exists>evs. trace (snd (download_attempts w url f m idx s)) = trace s @ evs"
proof (induction idx arbitrary: s)
  case Nil
  then show ?case by simp
next
  case (Cons a idx)
  have b: "\<exists>evs. trace (backoff m a (unlink_partial f t)) = trace t @ evs" for t
    by (simp add: backoff_def unlink_partial_def)
  have b': "\<exists>evs. trace (backoff m a t) = trace t @ evs" for t
    by (simp add: backoff_def)
  have step: "\<exists>evs. trace (snd (download_attempts w url f m idx t')) = trace t @ evs"
    if "\<exists>evs. trace t' = trace t @ evs" for t t'
    using that Cons.IH [of t'] by auto
  show ?case
  proof (cases "network w (net_calls s) (GET url)")
    case (HTTPError code)
    then show ?thesis
      using step [of "backoff m a (emit (Net (GET url)) (s\<lparr>net_calls := Suc (net_calls s)\<rparr>))" s]
      by (auto simp: urlopen_def backoff_def)
  next
    case (OtherError partial)
    then show ?thesis
      using step [of "backoff m a (unlink_partial f
          (case partial of None \<Rightarrow> emit (Net (GET url)) (s\<lparr>net_calls := Suc (net_calls s)\<rparr>)
           | Some p \<Rightarrow> open_wb f p (emit (Net (GET url)) (s\<lparr>net_calls := Suc (net_calls s)\<rparr>))))" s]
      by (auto simp: urlopen_def backoff_def unlink_partial_def Let_def split: option.splits)
  next
    case (Body body)
    then show ?thesis by (simp add: urlopen_def Let_def)
  qed
qed

lemma download_file_extends:
  assumes "download_file w url f m s = (b, s')"
  shows "\<exists>evs. trace s' = trace s @ Call url f # evs \<and> fetches evs = []"
proof -
  have "\<exists>evs. trace s' = trace s @ Call url f # evs"
  proof (cases "exists_path (output_dir s) f")
    case True
    with assms show ?thesis by (auto simp: download_file_present)
  next
    case False
    with assms have "s' = snd (download_attempts w url f m [0..<m] (emit (Call url f) s))"
      by (simp add: download_file_absent)
    with download_attempts_extends [of w url f m "[0..<m]" "emit (Call url f) s"]
    show ?thesis by auto
  qed
  then obtain evs where e: "trace s' = trace s @ Call url f # evs" by blast
  with download_file_tally(2) [OF assms] have "fetches evs = []" by simp
  with e show ?thesis by blast
qed

section \<open>Properties of the checksum file\<close>

lemma rfind_None: "(rfind c s = None) = (c \<notin> set s)"
  by (induction s) (auto split: option.splits)

lemma py_suffix_no_dot: "CHR ''.'' \<notin> set name \<Longrightarrow> py_suffix name = []"
  using rfind_None [of "CHR ''.''" name] by (simp add: py_suffix_def)

lemma read_file_write_other: "n \<noteq> m \<Longrightarrow> read_file (write_file m b d) n = read_file d n"
  by (simp add: read_file_def write_file_def update_conv')

lemma is_file_key:
  assumes "is_file d n"
  shows "n \<in> fst ` set d"
proof -
  from assms have "map_of d n \<noteq> None"
    by (auto simp: is_file_def read_file_def split: option.splits)
  then show ?thesis by (simp add: map_of_eq_None_iff)
qed

lemma checksum_line_write_other:
  "n \<noteq> m \<Longrightarrow> checksum_line w (write_file m b d) n = checksum_line w d n"
  by (simp add: checksum_line_def read_file_write_other)

text \<open>
  What \<^verbatim>\<open>create_checksums_file\<close> writes. In a directory whose entry names are distinct
  and where \<^verbatim>\<open>SHA256SUMS\<close> is not a subdirectory, it replaces the content of
  \<^verbatim>\<open>SHA256SUMS\<close>, whatever it was, by one line \<^verbatim>\<open><digest>  <name>\<close> for each file it
  lists, in ascending order of the names, and changes no other entry. The files listed
  are regular files other than \<^verbatim>\<open>SHA256SUMS\<close>, and among them are all those with the
  suffix \<^verbatim>\<open>.tgz\<close> and all those whose names have no dot.
\<close>

theorem create_checksums_file_manifest:
  assumes names: "distinct (map fst d)"
      and manifest: "map_of d ''SHA256SUMS'' \<noteq> Some Directory"
  shows "\<exists>d' covered.
      create_checksums_file w d = Some d'
    \<and> read_file d' ''SHA256SUMS'' = Some (concat (map (checksum_line w d) covered))
    \<and> (\<forall>name\<in>set covered. \<exists>content. read_file d name = Some content
          \<and> checksum_line w d name = sha256 w content @ ''  '' @ name @ [CHR 0x0A])
    \<and> sorted covered
    \<and> distinct covered
    \<and> set covered \<subseteq> {name. is_file d name \<and> name \<noteq> ''SHA256SUMS''}
    \<and> {name. is_file d name \<and> name \<noteq> ''SHA256SUMS''
              \<and> (py_suffix name = ''.tgz'' \<or> CHR ''.'' \<notin> set name)} \<subseteq> set covered
    \<and> (\<forall>name. name \<noteq> ''SHA256SUMS'' \<longrightarrow> map_of d' name = map_of d name)"
proof -
  let ?m = "''SHA256SUMS''"
  let ?d1 = "write_file ?m [] d"
  let ?covered = "filter (listed ?d1) (sort (map fst ?d1))"
  let ?d' = "write_file ?m (concat (map (checksum_line w ?d1) ?covered)) ?d1"
  have run: "create_checksums_file w d = Some ?d'"
    using manifest
    by (auto simp: create_checksums_file_def Let_def split: option.splits entry.splits)
  have not_m: "n \<noteq> ?m" if "n \<in> set ?covered" for n
    using that by (simp add: listed_def)
  have lines: "map (checksum_line w ?d1) ?covered = map (checksum_line w d) ?covered"
    by (rule map_cong [OF refl]) (use not_m in \<open>simp add: checksum_line_write_other\<close>)
  have content: "read_file ?d' ?m = Some (concat (map (checksum_line w d) ?covered))"
    by (simp add: lines)
  have regular: "is_file d n \<and> n \<noteq> ?m" if "n \<in> set ?covered" for n
    using that by (auto simp: listed_def is_file_def read_file_write_other)
  have form: "\<forall>name\<in>set ?covered. \<exists>content. read_file d name = Some content
          \<and> checksum_line w d name = sha256 w content @ ''  '' @ name @ [CHR 0x0A]"
  proof
    fix name assume "name \<in> set ?covered"
    from regular [OF this] obtain content where "read_file d name = Some content"
      by (auto simp: is_file_def)
    then show "\<exists>content. read_file d name = Some content
          \<and> checksum_line w d name = sha256 w content @ ''  '' @ name @ [CHR 0x0A]"
      by (simp add: checksum_line_def)
  qed
  have srt: "sorted ?covered"
    by (rule sorted_wrt_filter) (rule sorted_sort)
  have dst: "distinct ?covered"
    using names by (simp add: write_file_def distinct_update)
  have upper: "set ?covered \<subseteq> {name. is_file d name \<and> name \<noteq> ?m}"
    using regular by blast
  have lower: "{name. is_file d name \<and> name \<noteq> ?m
              \<and> (py_suffix name = ''.tgz'' \<or> CHR ''.'' \<notin> set name)} \<subseteq> set ?covered"
  proof
    fix n assume "n \<in> {name. is_file d name \<and> name \<noteq> ?m
              \<and> (py_suffix name = ''.tgz'' \<or> CHR ''.'' \<notin> set name)}"
    then have f: "is_file d n" and m: "n \<noteq> ?m"
      and s: "py_suffix n = ''.tgz'' \<or> py_suffix n = []"
      using py_suffix_no_dot by auto
    from f m have "is_file ?d1 n" by (simp add: is_file_def read_file_write_other)
    with m s have l: "listed ?d1 n" by (simp add: listed_def)
    from f have "n \<in> fst ` set d" by (rule is_file_key)
    then have "n \<in> set (map fst ?d1)" by (simp add: write_file_def dom_update)
    with l show "n \<in> set ?covered" by simp
  qed
  have others: "\<forall>name. name \<noteq> ?m \<longrightarrow> map_of ?d' name = map_of d name"
    by (simp add: write_file_def update_conv')
  show ?thesis
    apply (rule exI [of _ ?d'], rule exI [of _ ?covered])
    using run content form srt dst upper lower others
    by (intro conjI; blast)
qed


lemma manifest_example:
  "create_checksums_file downloadable_world binaries_and_reports =
     Some [(''VERSION.json'', File ''{}''),
           (''docker-27.4.1-x86_64.tgz'', File ''abc''),
           (''docker-27.4.1-aarch64.tgz'', File ''abd''),
           (''SHA256SUMS'',
            File (''sha256 of abd  docker-27.4.1-aarch64.tgz'' @ [CHR 0x0A]
                  @ ''sha256 of abc  docker-27.4.1-x86_64.tgz'' @ [CHR 0x0A]))]"
  by code_simp

lemma manifest_example_content:
  "read_file (the (create_checksums_file downloadable_world binaries_and_reports)) ''SHA256SUMS''
     = Some (''sha256 of abd  docker-27.4.1-aarch64.tgz'' @ [CHR 0x0A]
             @ ''sha256 of abc  docker-27.4.1-x86_64.tgz'' @ [CHR 0x0A])"
  by (simp add: manifest_example read_file_def)

theorem create_checksums_file_manifest_witness:
  "distinct (map fst binaries_and_reports)
   \<and> map_of binaries_and_reports ''SHA256SUMS'' \<noteq> Some Directory
   \<and> create_checksums_file downloadable_world binaries_and_reports \<noteq> None
   \<and> read_file (the (create_checksums_file downloadable_world binaries_and_reports)) ''SHA256SUMS''
       = Some (''sha256 of abd  docker-27.4.1-aarch64.tgz'' @ [CHR 0x0A]
               @ ''sha256 of abc  docker-27.4.1-x86_64.tgz'' @ [CHR 0x0A])"
proof -
  have d: "distinct (map fst binaries_and_reports)"
    by (simp add: binaries_and_reports_def)
  have m: "map_of binaries_and_reports ''SHA256SUMS'' \<noteq> Some Directory"
    by (simp add: binaries_and_reports_def)
  from create_checksums_file_manifest [OF d m, of downloadable_world]
  obtain d' where "create_checksums_file downloadable_world binaries_and_reports = Some d'"
    by blast
  then have "create_checksums_file downloadable_world binaries_and_reports \<noteq> None" by simp
  with d m manifest_example_content show ?thesis by blast
qed

text \<open>
  The filter on the suffix leaves out \<^verbatim>\<open>VERSION.json\<close>: it is a regular file of the
  directory, and the checksum file has no line for it.
\<close>

theorem report_not_in_manifest_counterexample:
  "is_file binaries_and_reports ''VERSION.json''
   \<and> ''VERSION.json'' \<noteq> ''SHA256SUMS''
   \<and> read_file (the (create_checksums_file downloadable_world binaries_and_reports)) ''SHA256SUMS''
       = Some (''sha256 of abd  docker-27.4.1-aarch64.tgz'' @ [CHR 0x0A]
               @ ''sha256 of abc  docker-27.4.1-x86_64.tgz'' @ [CHR 0x0A])"
proof -
  have "is_file binaries_and_reports ''VERSION.json''"
    by (simp add: read_file_def is_file_def binaries_and_reports_def)
  with manifest_example_content show ?thesis by simp
qed

text \<open>
  Claim C9. The claim has every regular file of the directory but the checksum file
  itself listed. After a run that installed the runtime archive, the compose binary and
  the rootless archive for one architecture, \<^verbatim>\<open>create_checksums_file\<close> lists the two
  archives only: the name of the compose binary carries its version, so its
  \<^verbatim>\<open>suffix\<close> is neither \<^verbatim>\<open>.tgz\<close> nor empty, and the binary gets no line.
\<close>

theorem compose_binary_not_in_manifest:
  "fst (the (download_all release_world [''aarch64''] ''27.4.1'' ''2.32.4'' (0, 0) (init_updater [])))
     = (3, 3)
   \<and> output_dir (snd (the (download_all release_world [''aarch64''] ''27.4.1'' ''2.32.4'' (0, 0)
                             (init_updater []))))
     = [(''docker-27.4.1-aarch64.tgz'', File ''{}''),
        (''docker-compose-linux-2.32.4-aarch64'', File ''{}''),
        (''docker-rootless-extras-27.4.1-aarch64.tgz'', File ''{}'')]
   \<and> py_suffix ''docker-compose-linux-2.32.4-aarch64'' = ''.4-aarch64''
   \<and> read_file
        (the (create_checksums_file release_world
                (output_dir (snd (the (download_all release_world [''aarch64''] ''27.4.1'' ''2.32.4''
                                         (0, 0) (init_updater [])))))))
        ''SHA256SUMS''
     = Some (''sha256 of {}  docker-27.4.1-aarch64.tgz'' @ [CHR 0x0A]
             @ ''sha256 of {}  docker-rootless-extras-27.4.1-aarch64.tgz'' @ [CHR 0x0A])"
  by code_simp

section \<open>Properties of the removal of old versions\<close>

lemma delete_filter: "AList.delete k d = filter (\<lambda>e. fst e \<noteq> k) d"
  by (induction d) auto

lemma is_file_filter:
  "is_file (filter (\<lambda>e. Q (fst e)) d) n = (Q n \<and> is_file d n)"
  by (simp add: is_file_def read_file_def map_of_filter restrict_map_def)

lemma unlink_file: "is_file d n \<Longrightarrow> unlink n d = Some (filter (\<lambda>e. fst e \<noteq> n) d)"
  by (auto simp: unlink_def is_file_def read_file_def delete_filter split: option.splits entry.splits)

lemma remove_old_exact:
  assumes "distinct names"
      and "\<forall>n\<in>set names. outdated re cur n \<longrightarrow> is_file d n"
  shows "remove_old re cur names d =
           (True, filter (\<lambda>e. \<not> (fst e \<in> set names \<and> outdated re cur (fst e))) d)"
  using assms
proof (induction names arbitrary: d)
  case Nil
  then show ?case by simp
next
  case (Cons name rest)
  show ?case
  proof (cases "outdated re cur name")
    case False
    then have step: "remove_old re cur (name # rest) d = remove_old re cur rest d"
      by (auto simp: outdated_def split: option.splits)
    have "remove_old re cur rest d =
           (True, filter (\<lambda>e. \<not> (fst e \<in> set rest \<and> outdated re cur (fst e))) d)"
      using Cons.prems by (intro Cons.IH) auto
    moreover have "filter (\<lambda>e. \<not> (fst e \<in> set rest \<and> outdated re cur (fst e))) d
        = filter (\<lambda>e. \<not> (fst e \<in> set (name # rest) \<and> outdated re cur (fst e))) d"
      using False by (intro filter_cong) auto
    ultimately show ?thesis using step by simp
  next
    case True
    with Cons.prems have f: "is_file d name" by simp
    let ?d' = "filter (\<lambda>e. fst e \<noteq> name) d"
    from True f have step: "remove_old re cur (name # rest) d = remove_old re cur rest ?d'"
      by (auto simp: outdated_def unlink_file split: option.splits)
    have "\<forall>n\<in>set rest. outdated re cur n \<longrightarrow> is_file ?d' n"
      using Cons.prems is_file_filter [of "\<lambda>k. k \<noteq> name" d] by auto
    with Cons.prems have "remove_old re cur rest ?d' =
           (True, filter (\<lambda>e. \<not> (fst e \<in> set rest \<and> outdated re cur (fst e))) ?d')"
      by (intro Cons.IH) auto
    moreover have "filter (\<lambda>e. \<not> (fst e \<in> set rest \<and> outdated re cur (fst e))) ?d'
        = filter (\<lambda>e. \<not> (fst e \<in> set (name # rest) \<and> outdated re cur (fst e))) d"
      using True by (simp add: filter_filter) (intro filter_cong, auto)
    ultimately show ?thesis using step by simp
  qed
qed

lemma remove_old_glob:
  assumes "distinct (map fst d)"
      and "\<forall>n\<in>fst ` set d. glob_star pre suf n \<and> outdated re cur n \<longrightarrow> is_file d n"
  shows "remove_old re cur (glob d pre suf) d =
           (True, filter (\<lambda>e. \<not> (glob_star pre suf (fst e) \<and> outdated re cur (fst e))) d)"
proof -
  have "remove_old re cur (glob d pre suf) d =
      (True, filter (\<lambda>e. \<not> (fst e \<in> set (glob d pre suf) \<and> outdated re cur (fst e))) d)"
    using assms by (intro remove_old_exact) (auto simp: glob_def distinct_map_filter)
  moreover have "filter (\<lambda>e. \<not> (fst e \<in> set (glob d pre suf) \<and> outdated re cur (fst e))) d
      = filter (\<lambda>e. \<not> (glob_star pre suf (fst e) \<and> outdated re cur (fst e))) d"
    by (intro filter_cong) (auto simp: glob_def)
  ultimately show ?thesis by simp
qed


lemma old_version_unfold:
  "old_version cd cc arch n =
     ((glob_star ''docker-'' (''-'' @ arch @ ''.tgz'') n \<and> outdated (match_tgz ''docker-'') cd n)
      \<or> (glob_star ''docker-rootless-extras-'' (''-'' @ arch @ ''.tgz'') n
          \<and> outdated (match_tgz ''docker-rootless-extras-'') cd n)
      \<or> (glob_star ''docker-compose-linux-'' (''-'' @ arch) n \<and> outdated match_compose cc n))"
  by (auto simp: old_version_def family_version_def current_version_def outdated_def
      split: option.splits)

lemma cleanup_old_versions_exact:
  assumes names: "distinct (map fst d)"
      and files: "\<forall>n\<in>fst ` set d. old_version cd cc arch n \<longrightarrow> is_file d n"
  shows "cleanup_old_versions cd cc arch d = filter (\<lambda>e. \<not> old_version cd cc arch (fst e)) d"
proof -
  let ?G1 = "\<lambda>n. glob_star ''docker-'' (''-'' @ arch @ ''.tgz'') n
               \<and> outdated (match_tgz ''docker-'') cd n"
  let ?G2 = "\<lambda>n. glob_star ''docker-rootless-extras-'' (''-'' @ arch @ ''.tgz'') n
               \<and> outdated (match_tgz ''docker-rootless-extras-'') cd n"
  let ?G3 = "\<lambda>n. glob_star ''docker-compose-linux-'' (''-'' @ arch) n
               \<and> outdated match_compose cc n"
  let ?d1 = "filter (\<lambda>e. \<not> ?G1 (fst e)) d"
  let ?d2 = "filter (\<lambda>e. \<not> ?G2 (fst e)) ?d1"
  let ?d3 = "filter (\<lambda>e. \<not> ?G3 (fst e)) ?d2"
  have old: "old_version cd cc arch n = (?G1 n \<or> ?G2 n \<or> ?G3 n)" for n
    by (rule old_version_unfold)
  have f1: "is_file ?d1 n = (\<not> ?G1 n \<and> is_file d n)" for n
    by (rule is_file_filter [of "\<lambda>n. \<not> ?G1 n" d n])
  have f2: "is_file ?d2 n = (\<not> ?G2 n \<and> is_file ?d1 n)" for n
    by (rule is_file_filter [of "\<lambda>n. \<not> ?G2 n" ?d1 n])
  have l1: "remove_old (match_tgz ''docker-'') cd (glob d ''docker-'' (''-'' @ arch @ ''.tgz'')) d
      = (True, ?d1)"
    using names files by (intro remove_old_glob) (auto simp: old)
  have n1: "distinct (map fst ?d1)" using names by (rule distinct_map_filter)
  have l2: "remove_old (match_tgz ''docker-rootless-extras-'') cd
        (glob ?d1 ''docker-rootless-extras-'' (''-'' @ arch @ ''.tgz'')) ?d1 = (True, ?d2)"
  proof (intro remove_old_glob n1 ballI impI)
    fix n assume "n \<in> fst ` set ?d1" and g: "?G2 n"
    then have "\<not> ?G1 n" and "n \<in> fst ` set d" by auto
    with g files show "is_file ?d1 n" unfolding f1 old by blast
  qed
  have n2: "distinct (map fst ?d2)" using n1 by (rule distinct_map_filter)
  have l3: "remove_old match_compose cc (glob ?d2 ''docker-compose-linux-'' (''-'' @ arch)) ?d2
      = (True, ?d3)"
  proof (intro remove_old_glob n2 ballI impI)
    fix n assume "n \<in> fst ` set ?d2" and g: "?G3 n"
    then have "\<not> ?G2 n" and "\<not> ?G1 n" and "n \<in> fst ` set d" by auto
    with g files show "is_file ?d2 n" unfolding f2 f1 old by blast
  qed
  have "cleanup_old_versions cd cc arch d = ?d3"
    by (simp only: cleanup_old_versions_def l1 l2 l3 prod.case bool.case snd_conv)
  also have "?d3 = filter (\<lambda>e. \<not> old_version cd cc arch (fst e)) d"
    unfolding filter_filter by (intro filter_cong) (auto simp: old)
  finally show ?thesis .
qed


lemma digits1_D:
  assumes "digits1 s = Some (d, r)"
  shows "s = d @ r" "d \<noteq> []" "\<forall>x\<in>set d. is_digit x" "r = [] \<or> \<not> is_digit (hd r)"
proof -
  from assms have d: "d = takeWhile is_digit s" and r: "r = dropWhile is_digit s" and "d \<noteq> []"
    by (auto simp: digits1_def Let_def split: if_splits)
  then show "s = d @ r" "d \<noteq> []" by simp_all
  from d show "\<forall>x\<in>set d. is_digit x" by (auto dest: set_takeWhileD)
  from r show "r = [] \<or> \<not> is_digit (hd r)" using hd_dropWhile [of is_digit s] by auto
qed

lemma digits1_append:
  assumes "d \<noteq> []" "\<forall>x\<in>set d. is_digit x" "r = [] \<or> \<not> is_digit (hd r)"
  shows "digits1 (d @ r) = Some (d, r)"
proof -
  from assms(3) have t: "takeWhile is_digit r = []" and dr: "dropWhile is_digit r = r"
    by (cases r; auto)+
  from assms(2) have "takeWhile is_digit (d @ r) = d @ takeWhile is_digit r"
    by (intro takeWhile_append2) simp
  moreover from assms(2) have "dropWhile is_digit (d @ r) = dropWhile is_digit r"
    by (intro dropWhile_append2) simp
  ultimately show ?thesis using assms(1) t dr by (simp add: digits1_def)
qed

lemma strip_prefix_D: "strip_prefix p s = Some r \<Longrightarrow> s = p @ r"
  by (induction p s rule: strip_prefix.induct) (auto split: if_splits)

lemma strip_prefix_append [simp]: "strip_prefix p (p @ r) = Some r"
  by (induction p) auto

lemma not_digit_dot [simp]: "\<not> is_digit CHR ''.''"
  by (simp add: is_digit_def less_eq_char_def)

lemma not_digit_dash [simp]: "\<not> is_digit CHR ''-''"
  by (simp add: is_digit_def less_eq_char_def)

lemma version_parts:
  assumes "is_version v"
  obtains a b c where "v = a @ CHR ''.'' # b @ CHR ''.'' # c"
    "a \<noteq> []" "\<forall>x\<in>set a. is_digit x" "b \<noteq> []" "\<forall>x\<in>set b. is_digit x"
    "c \<noteq> []" "\<forall>x\<in>set c. is_digit x"
proof -
  from assms have sv: "semver v = Some (v, [])" by (simp add: is_version_def)
  then obtain a r1 r2 b r3 r4 c where
    d1: "digits1 v = Some (a, r1)" and s1: "strip_prefix ''.'' r1 = Some r2"
    and d2: "digits1 r2 = Some (b, r3)" and s2: "strip_prefix ''.'' r3 = Some r4"
    and d3: "digits1 r4 = Some (c, [])" and v: "v = a @ ''.'' @ b @ ''.'' @ c"
    by (auto simp: semver_def split: option.splits prod.splits)
  from digits1_D [OF d1] digits1_D [OF d2] digits1_D [OF d3] v
  show ?thesis by (intro that [of a b c]) auto
qed

lemma semver_version_append:
  assumes "is_version v" "\<not> is_digit x"
  shows "semver (v @ x # r) = Some (v, x # r)"
proof -
  from assms(1) obtain a b c where v: "v = a @ CHR ''.'' # b @ CHR ''.'' # c"
    and a: "a \<noteq> []" "\<forall>x\<in>set a. is_digit x" and b: "b \<noteq> []" "\<forall>x\<in>set b. is_digit x"
    and c: "c \<noteq> []" "\<forall>x\<in>set c. is_digit x"
    by (rule version_parts)
  have 1: "digits1 (a @ CHR ''.'' # b @ CHR ''.'' # c @ x # r) = Some (a, CHR ''.'' # b @ CHR ''.'' # c @ x # r)"
    using a by (intro digits1_append) auto
  have 2: "digits1 (b @ CHR ''.'' # c @ x # r) = Some (b, CHR ''.'' # c @ x # r)"
    using b by (intro digits1_append) auto
  have 3: "digits1 (c @ x # r) = Some (c, x # r)"
    using c assms(2) by (intro digits1_append) auto
  show ?thesis
    unfolding v by (simp add: semver_def 1 2 3)
qed

lemma version_starts_digit:
  assumes "is_version v"
  obtains c cs where "v = c # cs" "is_digit c"
proof -
  from assms obtain a b c where v: "v = a @ CHR ''.'' # b @ CHR ''.'' # c"
    and a: "a \<noteq> []" "\<forall>x\<in>set a. is_digit x"
    by (rule version_parts)
  from a obtain x xs where "a = x # xs" "is_digit x" by (cases a) auto
  with v show ?thesis by (intro that [of x "xs @ CHR ''.'' # b @ CHR ''.'' # c"]) auto
qed


lemma known_arch: "(arch_mapping a \<noteq> None) = (a = ''x86_64'' \<or> a = ''aarch64'')"
  by (simp add: arch_mapping_def)

lemma glob_star_between: "glob_star pre suf (pre @ m @ suf) = True"
  by (simp add: glob_star_def)

lemma glob_star_suffix: "glob_star pre suf name \<Longrightarrow> \<exists>xs. name = xs @ suf"
  by (metis append_take_drop_id glob_star_def)

lemma arch_suffix_differs: "xs @ ''-x86_64'' @ t \<noteq> ys @ ''-aarch64'' @ t"
proof
  assume "xs @ ''-x86_64'' @ t = ys @ ''-aarch64'' @ t"
  then have "(xs @ ''-x86_64'') @ t = (ys @ ''-aarch64'') @ t" by simp
  then have "xs @ ''-x86_64'' = ys @ ''-aarch64''" by (simp only: append_same_eq)
  then have "rev (xs @ ''-x86_64'') = rev (ys @ ''-aarch64'')" by simp
  then show False by simp
qed

lemma glob_star_other_arch:
  assumes "a = ''x86_64'' \<or> a = ''aarch64''" "arch = ''x86_64'' \<or> arch = ''aarch64''" "a \<noteq> arch"
  shows "\<not> glob_star pre (''-'' @ arch @ t) (m @ ''-'' @ a @ t)"
proof
  assume "glob_star pre (''-'' @ arch @ t) (m @ ''-'' @ a @ t)"
  then obtain xs where "m @ ''-'' @ a @ t = xs @ ''-'' @ arch @ t"
    using glob_star_suffix by blast
  with assms show False
    using arch_suffix_differs [of m t xs] arch_suffix_differs [of xs t m] by auto
qed

lemma any1_then_x86_64 [simp]: "any1_then ''.tgz'' ''x86_64.tgz''" "any1_then [] ''x86_64''"
  by (simp_all add: starts_with_def)

lemma any1_then_aarch64 [simp]: "any1_then ''.tgz'' ''aarch64.tgz''" "any1_then [] ''aarch64''"
  by (simp_all add: starts_with_def)

lemma match_tgz_named:
  assumes "is_version v"
  shows "match_tgz pre (pre @ v @ ''-'' @ rest) = (if any1_then ''.tgz'' rest then Some v else None)"
  using semver_version_append [OF assms, of "CHR ''-''" rest]
  by (simp add: match_tgz_def)

lemma match_compose_named:
  assumes "is_version v"
  shows "match_compose (''docker-compose-linux-'' @ v @ ''-'' @ rest)
           = (if any1_then [] rest then Some v else None)"
  using semver_version_append [OF assms, of "CHR ''-''" rest]
    strip_prefix_append [of "''docker-compose-linux-''" "v @ ''-'' @ rest"]
  by (simp add: match_compose_def del: strip_prefix_append)

lemma digits1_letter [simp]:
  "digits1 (CHR ''r'' # s) = None" "digits1 (CHR ''c'' # s) = None"
  by (simp_all add: digits1_def is_digit_def less_eq_char_def)

lemma match_runtime_other_family [simp]:
  "match_tgz ''docker-'' (''docker-rootless-extras-'' @ s) = None"
  "match_tgz ''docker-'' (''docker-compose-linux-'' @ s) = None"
  by (simp_all add: match_tgz_def semver_def)

lemma match_rootless_other_family:
  assumes "is_version v"
  shows "match_tgz ''docker-rootless-extras-'' (''docker-'' @ v @ s) = None"
    and "match_tgz ''docker-rootless-extras-'' (''docker-compose-linux-'' @ t) = None"
proof -
  from assms obtain c cs where "v = c # cs" "is_digit c" by (rule version_starts_digit)
  then show "match_tgz ''docker-rootless-extras-'' (''docker-'' @ v @ s) = None"
    by (auto simp: match_tgz_def is_digit_def less_eq_char_def)
  show "match_tgz ''docker-rootless-extras-'' (''docker-compose-linux-'' @ t) = None"
    by (simp add: match_tgz_def)
qed

lemma match_compose_other_family:
  assumes "is_version v"
  shows "match_compose (''docker-'' @ v @ s) = None"
    and "match_compose (''docker-rootless-extras-'' @ t) = None"
proof -
  from assms obtain c cs where "v = c # cs" "is_digit c" by (rule version_starts_digit)
  then show "match_compose (''docker-'' @ v @ s) = None"
    by (auto simp: match_compose_def is_digit_def less_eq_char_def)
  show "match_compose (''docker-rootless-extras-'' @ t) = None"
    by (simp add: match_compose_def)
qed


lemma family_version_same:
  assumes v: "is_version v" and a: "a = ''x86_64'' \<or> a = ''aarch64''"
  shows "family_version a fam (artifact_name fam v a) = Some v"
proof (cases fam)
  case Runtime
  have "glob_star ''docker-'' (''-'' @ a @ ''.tgz'') (''docker-'' @ v @ ''-'' @ a @ ''.tgz'')"
    using glob_star_between [where pre = "''docker-''" and m = v and suf = "''-'' @ a @ ''.tgz''"] by simp
  moreover have "match_tgz ''docker-'' (''docker-'' @ v @ ''-'' @ a @ ''.tgz'') = Some v"
    using match_tgz_named [OF v, of "''docker-''" "a @ ''.tgz''"] a by (auto simp: starts_with_def)
  ultimately show ?thesis
    using Runtime by (simp add: family_version_def artifact_name_def docker_filename_def)
next
  case Rootless
  have "glob_star ''docker-rootless-extras-'' (''-'' @ a @ ''.tgz'')
          (''docker-rootless-extras-'' @ v @ ''-'' @ a @ ''.tgz'')"
    using glob_star_between [where pre = "''docker-rootless-extras-''" and m = v and suf = "''-'' @ a @ ''.tgz''"] by simp
  moreover have "match_tgz ''docker-rootless-extras-''
      (''docker-rootless-extras-'' @ v @ ''-'' @ a @ ''.tgz'') = Some v"
    using match_tgz_named [OF v, of "''docker-rootless-extras-''" "a @ ''.tgz''"] a by (auto simp: starts_with_def)
  ultimately show ?thesis
    using Rootless by (simp add: family_version_def artifact_name_def rootless_filename_def)
next
  case Compose
  have "glob_star ''docker-compose-linux-'' (''-'' @ a) (''docker-compose-linux-'' @ v @ ''-'' @ a)"
    using glob_star_between [where pre = "''docker-compose-linux-''" and m = v and suf = "''-'' @ a"] by simp
  moreover have "match_compose (''docker-compose-linux-'' @ v @ ''-'' @ a) = Some v"
    using match_compose_named [OF v, of a] a by (auto simp: starts_with_def)
  ultimately show ?thesis
    using Compose by (simp add: family_version_def artifact_name_def compose_filename_def)
qed

lemma family_version_other_arch:
  assumes a: "a = ''x86_64'' \<or> a = ''aarch64''" and arch: "arch = ''x86_64'' \<or> arch = ''aarch64''"
      and ne: "a \<noteq> arch"
  shows "family_version arch fam (artifact_name fam v a) = None"
proof (cases fam)
  case Runtime
  have "\<not> glob_star ''docker-'' (''-'' @ arch @ ''.tgz'') (''docker-'' @ v @ ''-'' @ a @ ''.tgz'')"
    using glob_star_other_arch [OF a arch ne, of "''docker-''" "''.tgz''" "''docker-'' @ v"] by simp
  then show ?thesis
    using Runtime by (simp add: family_version_def artifact_name_def docker_filename_def)
next
  case Rootless
  have "\<not> glob_star ''docker-rootless-extras-'' (''-'' @ arch @ ''.tgz'')
          (''docker-rootless-extras-'' @ v @ ''-'' @ a @ ''.tgz'')"
    using glob_star_other_arch [OF a arch ne, of "''docker-rootless-extras-''" "''.tgz''"
        "''docker-rootless-extras-'' @ v"] by simp
  then show ?thesis
    using Rootless by (simp add: family_version_def artifact_name_def rootless_filename_def)
next
  case Compose
  have "\<not> glob_star ''docker-compose-linux-'' (''-'' @ arch) (''docker-compose-linux-'' @ v @ ''-'' @ a)"
    using glob_star_other_arch [OF a arch ne, of "''docker-compose-linux-''" "[]"
        "''docker-compose-linux-'' @ v"] by simp
  then show ?thesis
    using Compose by (simp add: family_version_def artifact_name_def compose_filename_def)
qed

lemma family_version_other_family:
  assumes v: "is_version v" and ne: "fam \<noteq> fam'"
  shows "family_version arch fam (artifact_name fam' v a) = None"
proof -
  have r: "match_tgz ''docker-rootless-extras-'' (''docker-'' @ v @ ''-'' @ a @ ''.tgz'') = None"
    by (rule match_rootless_other_family(1) [OF v])
  have r': "match_tgz ''docker-rootless-extras-'' (''docker-compose-linux-'' @ v @ ''-'' @ a) = None"
    by (rule match_rootless_other_family(2) [OF v])
  have c: "match_compose (''docker-'' @ v @ ''-'' @ a @ ''.tgz'') = None"
    by (rule match_compose_other_family(1) [OF v])
  have c': "match_compose (''docker-rootless-extras-'' @ v @ ''-'' @ a @ ''.tgz'') = None"
    by (rule match_compose_other_family(2) [OF v])
  have d: "match_tgz ''docker-'' (''docker-rootless-extras-'' @ v @ ''-'' @ a @ ''.tgz'') = None"
    by (rule match_runtime_other_family)
  have d': "match_tgz ''docker-'' (''docker-compose-linux-'' @ v @ ''-'' @ a) = None"
    by (rule match_runtime_other_family)
  show ?thesis
    using ne r r' c c' d d'
    by (cases fam; cases fam')
       (simp_all add: family_version_def artifact_name_def docker_filename_def
          rootless_filename_def compose_filename_def)
qed

lemma family_version_artifact:
  assumes "is_version v" "arch_mapping a \<noteq> None" "arch_mapping arch \<noteq> None"
  shows "family_version arch fam (artifact_name fam' v a)
           = (if fam = fam' \<and> a = arch then Some v else None)"
proof -
  from assms(2) have a: "a = ''x86_64'' \<or> a = ''aarch64''"
    unfolding known_arch .
  from assms(3) have arch: "arch = ''x86_64'' \<or> arch = ''aarch64''"
    unfolding known_arch .
  show ?thesis
  proof (cases "fam = fam'")
    case False
    with family_version_other_family [OF assms(1) False] show ?thesis by simp
  next
    case True
    show ?thesis
    proof (cases "a = arch")
      case same: True
      with True family_version_same [OF assms(1) a, of fam] show ?thesis by simp
    next
      case False
      with True family_version_other_arch [OF a arch False, of fam v] show ?thesis by simp
    qed
  qed
qed


lemma old_version_artifact:
  assumes "is_version v" "arch_mapping a \<noteq> None" "arch_mapping arch \<noteq> None"
  shows "old_version cd cc arch (artifact_name fam v a)
           = (a = arch \<and> v \<noteq> current_version cd cc fam)"
  using family_version_artifact [OF assms]
  by (cases fam) (auto simp: old_version_def outdated_def)

text \<open>
  What \<^verbatim>\<open>cleanup_old_versions\<close> removes, relative to its two version arguments. In a
  directory with distinct names whose old entries are regular files, it removes exactly
  the entries with an old name and leaves every other entry as it was. The name of the
  artifact of a family, version and architecture is old exactly when the architecture is
  the one given and the version differs from the argument the family is compared with:
  \<open>current_docker_version\<close> for the runtime and for the rootless extras,
  \<open>current_compose_version\<close> for compose.
\<close>

theorem cleanup_old_versions_removes_old:
  assumes names: "distinct (map fst d)"
      and files: "\<forall>n\<in>fst ` set d.
                    old_version current_docker_version current_compose_version arch n \<longrightarrow> is_file d n"
  shows "cleanup_old_versions current_docker_version current_compose_version arch d
           = filter (\<lambda>entry. \<not> old_version current_docker_version current_compose_version arch
                                  (fst entry)) d
    \<and> (\<forall>name. map_of (cleanup_old_versions current_docker_version current_compose_version arch d) name
           = (if old_version current_docker_version current_compose_version arch name then None
              else map_of d name))
    \<and> (arch_mapping arch \<noteq> None \<longrightarrow>
         (\<forall>fam version a. is_version version \<and> arch_mapping a \<noteq> None \<longrightarrow>
            old_version current_docker_version current_compose_version arch
              (artifact_name fam version a)
            = (a = arch
               \<and> version \<noteq> current_version current_docker_version current_compose_version fam)))"
proof -
  let ?old = "old_version current_docker_version current_compose_version arch"
  have eq: "cleanup_old_versions current_docker_version current_compose_version arch d
           = filter (\<lambda>entry. \<not> ?old (fst entry)) d"
    using names files by (rule cleanup_old_versions_exact)
  have "map_of (filter (\<lambda>entry. \<not> ?old (fst entry)) d) name
           = (if ?old name then None else map_of d name)" for name
    using map_of_filter [of "\<lambda>n. \<not> ?old n" d] by (simp add: restrict_map_def)
  with eq have look: "\<forall>name.
      map_of (cleanup_old_versions current_docker_version current_compose_version arch d) name
           = (if ?old name then None else map_of d name)" by simp
  have art: "arch_mapping arch \<noteq> None \<longrightarrow>
         (\<forall>fam version a. is_version version \<and> arch_mapping a \<noteq> None \<longrightarrow>
            ?old (artifact_name fam version a)
            = (a = arch
               \<and> version \<noteq> current_version current_docker_version current_compose_version fam))"
    using old_version_artifact by blast
  from eq look art show ?thesis by (intro conjI)
qed

lemma cleanup_example:
  "cleanup_old_versions ''1.2.0'' ''2.0.0'' ''x86_64'' mixed_versions =
     [(''docker-1.2.0-x86_64.tgz'', File ''c''),
      (''docker-1.0.0-aarch64.tgz'', File ''d''),
      (''docker-rootless-extras-1.2.0-x86_64.tgz'', File ''e''),
      (''docker-compose-linux-2.0.0-x86_64'', File ''f''),
      (''docker-notes-x86_64.tgz'', File ''g'')]"
  by code_simp

theorem cleanup_old_versions_removes_old_witness:
  "distinct (map fst mixed_versions)
   \<and> list_all (is_file mixed_versions) (map fst mixed_versions)
   \<and> cleanup_old_versions ''1.2.0'' ''2.0.0'' ''x86_64'' mixed_versions =
       [(''docker-1.2.0-x86_64.tgz'', File ''c''),
        (''docker-1.0.0-aarch64.tgz'', File ''d''),
        (''docker-rootless-extras-1.2.0-x86_64.tgz'', File ''e''),
        (''docker-compose-linux-2.0.0-x86_64'', File ''f''),
        (''docker-notes-x86_64.tgz'', File ''g'')]
   \<and> filter (\<lambda>entry. \<not> old_version ''1.2.0'' ''2.0.0'' ''x86_64'' (fst entry)) mixed_versions =
       [(''docker-1.2.0-x86_64.tgz'', File ''c''),
        (''docker-1.0.0-aarch64.tgz'', File ''d''),
        (''docker-rootless-extras-1.2.0-x86_64.tgz'', File ''e''),
        (''docker-compose-linux-2.0.0-x86_64'', File ''f''),
        (''docker-notes-x86_64.tgz'', File ''g'')]"
proof -
  have d: "distinct (map fst mixed_versions)"
    by (simp add: mixed_versions_def)
  have f: "list_all (is_file mixed_versions) (map fst mixed_versions)"
    by (simp add: mixed_versions_def is_file_def read_file_def)
  then have f': "\<forall>n\<in>fst ` set mixed_versions.
      old_version ''1.2.0'' ''2.0.0'' ''x86_64'' n \<longrightarrow> is_file mixed_versions n"
    by (simp add: list_all_iff)
  from cleanup_old_versions_removes_old [OF d f']
  have "cleanup_old_versions ''1.2.0'' ''2.0.0'' ''x86_64'' mixed_versions
      = filter (\<lambda>entry. \<not> old_version ''1.2.0'' ''2.0.0'' ''x86_64'' (fst entry)) mixed_versions"
    by blast
  with d f cleanup_example show ?thesis by simp
qed


text \<open>
  Claim C6. The claim keeps, in each family, the files of the version just installed
  for that family. The code compares the rootless extras with the runtime version: after
  the rootless-extras slot fell back from 27.4.1 to 27.3.0 and installed the 27.3.0
  archive, the cleanup for the runtime version 27.4.1 removes that archive again.
\<close>

theorem cleanup_removes_rootless_fallback:
  "fst (rootless_slot rootless_fallback_world ''x86_64'' x86_64_info ''27.4.1'' (init_updater []))
   \<and> output_dir (snd (rootless_slot rootless_fallback_world ''x86_64'' x86_64_info ''27.4.1''
                       (init_updater [])))
       = [(''docker-rootless-extras-27.3.0-x86_64.tgz'', File ''content'')]
   \<and> cleanup_old_versions ''27.4.1'' ''2.32.4'' ''x86_64''
        (output_dir (snd (rootless_slot rootless_fallback_world ''x86_64'' x86_64_info ''27.4.1''
                            (init_updater []))))
       = []"
  by code_simp

section \<open>Properties of the rootless-extras slot\<close>

lemma py_int_snoc: "py_int (ds @ [c]) = 10 * py_int ds + (of_char c - 48)"
  by (simp add: py_int_def)

lemma decimal_snoc: "decimal (ds @ [c]) = 10 * decimal ds + (of_char c - 48)"
proof -
  have "(\<Sum>i<length ds. (of_char ((ds @ [c]) ! i) - 48) * 10 ^ (length ds - i))
      = (\<Sum>i<length ds. 10 * ((of_char (ds ! i) - 48) * 10 ^ (length ds - Suc i)) :: nat)"
  proof (rule sum.cong [OF refl])
    fix i assume "i \<in> {..<length ds}"
    then have i: "i < length ds" by simp
    then have "length ds - i = Suc (length ds - Suc i)" by simp
    with i show "(of_char ((ds @ [c]) ! i) - 48) * 10 ^ (length ds - i)
        = (10 * ((of_char (ds ! i) - 48) * 10 ^ (length ds - Suc i)) :: nat)"
      by (simp add: nth_append)
  qed
  then show ?thesis
    by (simp add: decimal_def sum_distrib_left)
qed

lemma py_int_decimal: "py_int ds = decimal ds"
proof (induction ds rule: rev_induct)
  case Nil
  then show ?case by (simp add: py_int_def decimal_def)
next
  case (snoc c ds)
  then show ?case by (simp only: py_int_snoc decimal_snoc)
qed

lemma split_on_single: "sep \<notin> set c \<Longrightarrow> split_on sep c = [c]"
  by (induction c) auto

lemma split_on_before: "sep \<notin> set a \<Longrightarrow> split_on sep (a @ sep # rest) = a # split_on sep rest"
  by (induction a) auto

lemma digits_no_dot: "digits ds \<Longrightarrow> CHR ''.'' \<notin> set ds"
  by (auto simp: digits_def list_all_iff)

lemma version_key_parts:
  assumes "digits a" "digits b" "digits c"
  shows "version_key (a @ ''.'' @ b @ ''.'' @ c) = [decimal a, decimal b, decimal c]"
  using assms
  by (simp add: version_key_def split_on_before split_on_single digits_no_dot py_int_decimal)

lemma key_le_not_newer:
  "([x, y, z] \<le> [x', y', z']) = not_newer (x, y, z) (x', y', (z'::nat))"
  by (auto simp: not_newer_def)

lemma semver_parts:
  assumes "semver s = Some (v, r)"
  shows "\<exists>a b c. digits a \<and> digits b \<and> digits c \<and> v = a @ ''.'' @ b @ ''.'' @ c"
proof -
  from assms obtain a r1 r2 b r3 r4 c where
    d1: "digits1 s = Some (a, r1)" and d2: "digits1 r2 = Some (b, r3)"
    and d3: "digits1 r4 = Some (c, r)" and v: "v = a @ ''.'' @ b @ ''.'' @ c"
    by (auto simp: semver_def split: option.splits prod.splits)
  from digits1_D(2,3) [OF d1] digits1_D(2,3) [OF d2] digits1_D(2,3) [OF d3]
  have "digits a" "digits b" "digits c" by (simp_all add: digits_def list_all_iff)
  with v show ?thesis by blast
qed

lemma listed_version_parts:
  assumes "python_set w" "list_versions w pre arch s = (avail, s')" "v \<in> set avail"
  shows "\<exists>a b c. digits a \<and> digits b \<and> digits c \<and> v = a @ ''.'' @ b @ ''.'' @ c"
proof -
  from assms(2,3) obtain html where "v \<in> set (sorted_versions w (findall (re_versioned_tgz pre) html))"
    by (auto simp: list_versions_eq split: response.splits)
  with assms(1) have "v \<in> set (findall (re_versioned_tgz pre) html)"
    by (simp add: sorted_versions_set python_set_def)
  from findall_groups [OF this] obtain t r where "re_versioned_tgz pre t = Some (v, r)" by blast
  then obtain t' r' where "semver t' = Some (v, r')"
    by (auto simp: re_versioned_tgz_def split: option.splits prod.splits)
  then show ?thesis by (rule semver_parts)
qed


lemma listing_head_newest:
  assumes set_iter: "python_set w"
      and l: "list_versions w pre arch s = (avail, s')"
      and ne: "avail \<noteq> []"
  shows "\<exists>major minor patch. digits major \<and> digits minor \<and> digits patch
           \<and> hd avail = major @ ''.'' @ minor @ ''.'' @ patch
           \<and> (\<forall>v\<in>set avail. \<exists>a b c. digits a \<and> digits b \<and> digits c
                  \<and> v = a @ ''.'' @ b @ ''.'' @ c
                  \<and> not_newer (decimal a, decimal b, decimal c)
                       (decimal major, decimal minor, decimal patch))"
proof -
  from ne have "hd avail \<in> set avail" by simp
  from listed_version_parts [OF set_iter l this] obtain major minor patch where
    h: "digits major" "digits minor" "digits patch" "hd avail = major @ ''.'' @ minor @ ''.'' @ patch"
    by blast
  have mx: "version_key v \<le> version_key (hd avail)" if "v \<in> set avail" for v
    using list_versions_descending [OF l] descending_hd_max [of version_key] that ne
    by (cases avail) auto
  have "\<exists>a b c. digits a \<and> digits b \<and> digits c \<and> v = a @ ''.'' @ b @ ''.'' @ c
          \<and> not_newer (decimal a, decimal b, decimal c)
               (decimal major, decimal minor, decimal patch)"
    if v: "v \<in> set avail" for v
  proof -
    from listed_version_parts [OF set_iter l v] obtain a b c where
      p: "digits a" "digits b" "digits c" "v = a @ ''.'' @ b @ ''.'' @ c" by blast
    from mx [OF v] have "[decimal a, decimal b, decimal c]
        \<le> [decimal major, decimal minor, decimal patch]"
      unfolding p(4) h(4) version_key_parts [OF p(1-3)] version_key_parts [OF h(1-3)] .
    then have "not_newer (decimal a, decimal b, decimal c)
        (decimal major, decimal minor, decimal patch)"
      by (simp only: key_le_not_newer)
    with p show ?thesis by blast
  qed
  with h show ?thesis by blast
qed

text \<open>
  Claim C5. In the rootless-extras slot, when the download under the resolved version
  returns False, the listing of rootless versions is read next. When it is empty the
  slot fails and no second download is started. Otherwise exactly one more download is
  started, after the first has returned and the listing was read, for the first version
  of the listing. That version is the newest one listed: it and every version of the
  listing are \<open>major.minor.patch\<close>, and none of them is newer when major, minor and
  patch are compared as numbers, in this order. The result of that download is the
  result of the slot, whether it succeeds or fails.
\<close>

theorem rootless_slot_fallback:
  assumes set_iter: "python_set w"
      and primary: "download_file w (rootless_url (docker_arch info) docker_version)
                      (rootless_filename docker_version arch) 3 s = (False, s1)"
  shows "\<exists>avail s2 result s3.
      list_rootless_versions w (docker_arch info) s1 = (avail, s2)
    \<and> rootless_slot w arch info docker_version s = (result, s3)
    \<and> fetches (trace s1) = fetches (trace s)
          @ [(rootless_url (docker_arch info) docker_version, rootless_filename docker_version arch)]
    \<and> (case network w (net_calls s1) (GET (index_url (docker_arch info))) of
          Body html \<Rightarrow> set avail = set (findall (re_versioned_tgz ''docker-rootless-extras-'') html)
        | HTTPError code \<Rightarrow> avail = []
        | OtherError p \<Rightarrow> avail = [])
    \<and> (avail = [] \<longrightarrow> \<not> result \<and> s3 = s2 \<and> fetches (trace s3) = fetches (trace s1))
    \<and> (avail \<noteq> [] \<longrightarrow>
          (result, s3) = download_file w (rootless_url (docker_arch info) (hd avail))
                           (rootless_filename (hd avail) arch) 3 s2
          \<and> (\<forall>v\<in>set avail. version_key v \<le> version_key (hd avail))
          \<and> (\<exists>major minor patch. digits major \<and> digits minor \<and> digits patch
                \<and> hd avail = major @ ''.'' @ minor @ ''.'' @ patch
                \<and> (\<forall>v\<in>set avail. \<exists>a b c. digits a \<and> digits b \<and> digits c
                       \<and> v = a @ ''.'' @ b @ ''.'' @ c
                       \<and> not_newer (decimal a, decimal b, decimal c)
                            (decimal major, decimal minor, decimal patch)))
          \<and> (\<exists>evs. trace s3 = trace s1 @ Net (GET (index_url (docker_arch info)))
                        # Call (rootless_url (docker_arch info) (hd avail))
                            (rootless_filename (hd avail) arch) # evs
                   \<and> fetches evs = [])
          \<and> fetches (trace s3) = fetches (trace s1)
                @ [(rootless_url (docker_arch info) (hd avail), rootless_filename (hd avail) arch)])"
proof -
  obtain avail s2 where l: "list_rootless_versions w (docker_arch info) s1 = (avail, s2)"
    by (cases "list_rootless_versions w (docker_arch info) s1")
  then have l': "list_versions w ''docker-rootless-extras-'' (docker_arch info) s1 = (avail, s2)"
    by (simp add: list_rootless_versions_def)
  then have t2: "trace s2 = trace s1 @ [Net (GET (index_url (docker_arch info)))]"
    by (auto simp: list_versions_eq)
  obtain result s3 where r: "rootless_slot w arch info docker_version s = (result, s3)"
    by (cases "rootless_slot w arch info docker_version s")
  have empty: "avail = [] \<longrightarrow> \<not> result \<and> s3 = s2 \<and> fetches (trace s3) = fetches (trace s1)"
    using r primary l t2 by (auto simp: rootless_slot_def)
  have fb: "avail \<noteq> [] \<longrightarrow>
      (result, s3) = download_file w (rootless_url (docker_arch info) (hd avail))
                           (rootless_filename (hd avail) arch) 3 s2"
    using r primary l by (cases avail) (simp_all add: rootless_slot_def)
  have mx: "avail \<noteq> [] \<longrightarrow> (\<forall>v\<in>set avail. version_key v \<le> version_key (hd avail))"
    using list_versions_descending [OF l'] descending_hd_max [of version_key]
    by (cases avail) auto
  have nw: "avail \<noteq> [] \<longrightarrow>
      (\<exists>major minor patch. digits major \<and> digits minor \<and> digits patch
                \<and> hd avail = major @ ''.'' @ minor @ ''.'' @ patch
                \<and> (\<forall>v\<in>set avail. \<exists>a b c. digits a \<and> digits b \<and> digits c
                       \<and> v = a @ ''.'' @ b @ ''.'' @ c
                       \<and> not_newer (decimal a, decimal b, decimal c)
                            (decimal major, decimal minor, decimal patch)))"
    using listing_head_newest [OF set_iter l'] by blast
  have ev: "avail \<noteq> [] \<longrightarrow>
      (\<exists>evs. trace s3 = trace s1 @ Net (GET (index_url (docker_arch info)))
                        # Call (rootless_url (docker_arch info) (hd avail))
                            (rootless_filename (hd avail) arch) # evs
                   \<and> fetches evs = [])"
  proof
    assume "avail \<noteq> []"
    with fb have "download_file w (rootless_url (docker_arch info) (hd avail))
        (rootless_filename (hd avail) arch) 3 s2 = (result, s3)" by simp
    from download_file_extends [OF this] t2 show "\<exists>evs. trace s3 = trace s1
        @ Net (GET (index_url (docker_arch info)))
          # Call (rootless_url (docker_arch info) (hd avail)) (rootless_filename (hd avail) arch) # evs
        \<and> fetches evs = []" by auto
  qed
  have ft: "avail \<noteq> [] \<longrightarrow> fetches (trace s3) = fetches (trace s1)
                @ [(rootless_url (docker_arch info) (hd avail), rootless_filename (hd avail) arch)]"
    using ev by auto
  show ?thesis
    apply (rule exI [of _ avail], rule exI [of _ s2], rule exI [of _ result], rule exI [of _ s3])
    using l r download_file_tally(2) [OF primary] list_versions_content [OF set_iter l']
      empty fb mx nw ev ft
    by (intro conjI; blast)
qed

lemma rootless_primary_missing:
  "fst (download_file rootless_listing_world (rootless_url (docker_arch x86_64_info) ''27.11.0'')
          (rootless_filename ''27.11.0'' ''x86_64'') 3 (init_updater [])) = False"
  by code_simp

lemma rootless_listing_example:
  "fst (list_rootless_versions rootless_listing_world (docker_arch x86_64_info)
          (snd (download_file rootless_listing_world (rootless_url (docker_arch x86_64_info) ''27.11.0'')
                  (rootless_filename ''27.11.0'' ''x86_64'') 3 (init_updater []))))
     = [''27.10.0'', ''27.9.0'', ''27.3.0'']"
  by code_simp


theorem rootless_slot_fallback_witness:
  "python_set rootless_listing_world
   \<and> fst (download_file rootless_listing_world (rootless_url (docker_arch x86_64_info) ''27.11.0'')
          (rootless_filename ''27.11.0'' ''x86_64'') 3 (init_updater [])) = False
   \<and> fst (list_rootless_versions rootless_listing_world (docker_arch x86_64_info)
          (snd (download_file rootless_listing_world
                  (rootless_url (docker_arch x86_64_info) ''27.11.0'')
                  (rootless_filename ''27.11.0'' ''x86_64'') 3 (init_updater []))))
       = [''27.10.0'', ''27.9.0'', ''27.3.0'']
   \<and> fst (rootless_slot rootless_listing_world ''x86_64'' x86_64_info ''27.11.0'' (init_updater []))
   \<and> fetches (trace (snd (rootless_slot rootless_listing_world ''x86_64'' x86_64_info ''27.11.0''
                 (init_updater []))))
       = [(rootless_url ''x86_64'' ''27.11.0'', ''docker-rootless-extras-27.11.0-x86_64.tgz''),
          (rootless_url ''x86_64'' ''27.10.0'', ''docker-rootless-extras-27.10.0-x86_64.tgz'')]
   \<and> not_newer (decimal ''27'', decimal ''9'', decimal ''0'')
         (decimal ''27'', decimal ''10'', decimal ''0'')
   \<and> fst (rootless_slot rootless_fallback_world ''x86_64'' x86_64_info ''27.4.1'' (init_updater []))
   \<and> fetches (trace (snd (rootless_slot rootless_fallback_world ''x86_64'' x86_64_info ''27.4.1''
                 (init_updater []))))
       = [(rootless_url ''x86_64'' ''27.4.1'', ''docker-rootless-extras-27.4.1-x86_64.tgz''),
          (rootless_url ''x86_64'' ''27.3.0'', ''docker-rootless-extras-27.3.0-x86_64.tgz'')]"
proof -
  let ?w = rootless_listing_world
  let ?p = "download_file ?w (rootless_url (docker_arch x86_64_info) ''27.11.0'')
          (rootless_filename ''27.11.0'' ''x86_64'') 3 (init_updater [])"
  have ps: "python_set ?w" by (simp add: rootless_listing_world_def)
  have pr: "?p = (False, snd ?p)"
    using rootless_primary_missing by (cases ?p) simp
  from rootless_slot_fallback [OF ps pr] obtain avail s2 result s3 where
    l: "list_rootless_versions ?w (docker_arch x86_64_info) (snd ?p) = (avail, s2)"
    and r: "rootless_slot ?w ''x86_64'' x86_64_info ''27.11.0'' (init_updater []) = (result, s3)"
    and f: "avail \<noteq> [] \<longrightarrow> fetches (trace s3) = fetches (trace (snd ?p))
                @ [(rootless_url (docker_arch x86_64_info) (hd avail),
                    rootless_filename (hd avail) ''x86_64'')]"
    by blast
  from l rootless_listing_example have av: "avail = [''27.10.0'', ''27.9.0'', ''27.3.0'']"
    by simp
  have fp: "fetches (trace (snd ?p))
      = [(rootless_url ''x86_64'' ''27.11.0'', ''docker-rootless-extras-27.11.0-x86_64.tgz'')]"
    by code_simp
  from f av fp r have b: "fetches (trace (snd (rootless_slot ?w ''x86_64'' x86_64_info ''27.11.0''
                 (init_updater []))))
       = [(rootless_url ''x86_64'' ''27.11.0'', ''docker-rootless-extras-27.11.0-x86_64.tgz''),
          (rootless_url ''x86_64'' ''27.10.0'', ''docker-rootless-extras-27.10.0-x86_64.tgz'')]"
    by (simp add: x86_64_info_def rootless_filename_def)
  have a: "fst (rootless_slot ?w ''x86_64'' x86_64_info ''27.11.0'' (init_updater []))"
    by code_simp
  have n: "not_newer (decimal ''27'', decimal ''9'', decimal ''0'')
         (decimal ''27'', decimal ''10'', decimal ''0'')"
    by code_simp
  have c: "fst (rootless_slot rootless_fallback_world ''x86_64'' x86_64_info ''27.4.1''
      (init_updater []))"
    by code_simp
  have d: "fetches (trace (snd (rootless_slot rootless_fallback_world ''x86_64'' x86_64_info
      ''27.4.1'' (init_updater []))))
       = [(rootless_url ''x86_64'' ''27.4.1'', ''docker-rootless-extras-27.4.1-x86_64.tgz''),
          (rootless_url ''x86_64'' ''27.3.0'', ''docker-rootless-extras-27.3.0-x86_64.tgz'')]"
    by code_simp
  from ps rootless_primary_missing rootless_listing_example a b n c d
  show ?thesis by (intro conjI)
qed

end
